theory Spec2Isabelle
  imports Complex_Main
begin

section \<open>JavaScript strings\<close>

text \<open>
  Strings are lists of 8-bit characters, read as the code units U+0000 to U+00FF
  (ISO-8859-1).  The character classes below are the ones of the JavaScript engine
  restricted to that range: \<open>\s\<close> and \<open>trim\<close> use the same white-space set, \<open>\w\<close>
  is \<open>[A-Za-z0-9_]\<close>, and \<open>toLowerCase\<close> maps A-Z and the accented capitals.
\<close>

definition isSpace :: "char \<Rightarrow> bool" where
  "isSpace c = (let n = (of_char c :: nat) in (9 \<le> n \<and> n \<le> 13) \<or> n = 32 \<or> n = 160)"

definition isDigit :: "char \<Rightarrow> bool" where
  "isDigit c = (let n = (of_char c :: nat) in 48 \<le> n \<and> n \<le> 57)"

definition isLowerAZ :: "char \<Rightarrow> bool" where
  "isLowerAZ c = (let n = (of_char c :: nat) in 97 \<le> n \<and> n \<le> 122)"

definition isUpperAZ :: "char \<Rightarrow> bool" where
  "isUpperAZ c = (let n = (of_char c :: nat) in 65 \<le> n \<and> n \<le> 90)"

definition isWordChar :: "char \<Rightarrow> bool" where
  "isWordChar c = (isLowerAZ c \<or> isUpperAZ c \<or> isDigit c \<or> c = CHR ''_'')"

definition isAlnumLower :: "char \<Rightarrow> bool" where
  "isAlnumLower c = (isLowerAZ c \<or> isDigit c)"

definition toLowerChar :: "char \<Rightarrow> char" where
  "toLowerChar c =
     (let n = (of_char c :: nat)
      in if (65 \<le> n \<and> n \<le> 90) \<or> (192 \<le> n \<and> n \<le> 222 \<and> n \<noteq> 215)
         then char_of (n + 32) else c)"

definition toLowerCase :: "string \<Rightarrow> string" where
  "toLowerCase s = map toLowerChar s"

definition trim :: "string \<Rightarrow> string" where
  "trim s = rev (dropWhile isSpace (rev (dropWhile isSpace s)))"

text \<open>\<open>s.slice(-n)\<close> on an array: the last \<open>n\<close> elements, all of them when there are fewer.\<close>

definition sliceLast :: "nat \<Rightarrow> 'a list \<Rightarrow> 'a list" where
  "sliceLast n xs = drop (length xs - n) xs"

text \<open>
  \<open>s.split(sep)\<close> for a separator that is one character of the class \<open>sep\<close>: the
  pieces between separators, empty pieces included.  Followed by \<open>.filter(Boolean)\<close>
  it gives the non-empty maximal runs of non-separator characters, which is also what
  \<open>s.split(/sep+/).filter(Boolean)\<close> gives.
\<close>

fun splitOn :: "(char \<Rightarrow> bool) \<Rightarrow> string \<Rightarrow> string list" where
  "splitOn sep [] = [[]]"
| "splitOn sep (c # cs) =
     (if sep c then [] # splitOn sep cs
      else (case splitOn sep cs of [] \<Rightarrow> [[c]] | w # ws \<Rightarrow> (c # w) # ws))"

definition filterBoolean :: "string list \<Rightarrow> string list" where
  "filterBoolean ws = filter (\<lambda>w. w \<noteq> []) ws"

definition splitWords :: "(char \<Rightarrow> bool) \<Rightarrow> string \<Rightarrow> string list" where
  "splitWords sep s = filterBoolean (splitOn sep s)"

fun joinWith :: "string \<Rightarrow> string list \<Rightarrow> string" where
  "joinWith d [] = []"
| "joinWith d [w] = w"
| "joinWith d (w # ws) = w @ d @ joinWith d ws"

text \<open>\<open>s.replace(/[class]+/g, " ")\<close>: every maximal run of the class becomes one space.\<close>

function replaceRuns :: "(char \<Rightarrow> bool) \<Rightarrow> string \<Rightarrow> string" where
  "replaceRuns P [] = []"
| "replaceRuns P (c # cs) =
     (if P c then CHR '' '' # replaceRuns P (dropWhile P cs) else c # replaceRuns P cs)"
  by pat_completeness auto
termination
  by (relation "measure (\<lambda>(P, s). length s)") (auto simp: le_imp_less_Suc length_dropWhile_le)

text \<open>\<open>s.includes(sub)\<close>.\<close>

fun startsWith :: "string \<Rightarrow> string \<Rightarrow> bool" where
  "startsWith s [] = True"
| "startsWith [] (p # ps) = False"
| "startsWith (c # cs) (p # ps) = (c = p \<and> startsWith cs ps)"

fun includesStr :: "string \<Rightarrow> string \<Rightarrow> bool" where
  "includesStr [] sub = (sub = [])"
| "includesStr (c # cs) sub = (startsWith (c # cs) sub \<or> includesStr cs sub)"

definition endsWith :: "string \<Rightarrow> string \<Rightarrow> bool" where
  "endsWith s suffix = startsWith (rev s) (rev suffix)"

subsection \<open>Regular expressions\<close>

text \<open>
  A regular expression is modelled by a matcher that says whether the pattern matches
  at one position, given the character before the position (for \<open>\b\<close>) and the rest
  of the input.  \<open>regexTest\<close> tries every position from left to right, as
  \<open>RegExp.prototype.test\<close> does for a pattern without the sticky flag.
\<close>

definition headOpt :: "string \<Rightarrow> char option" where
  "headOpt s = (case s of [] \<Rightarrow> None | c # _ \<Rightarrow> Some c)"

definition lastOpt :: "char option \<Rightarrow> string \<Rightarrow> char option" where
  "lastOpt prev s = (if s = [] then prev else Some (last s))"

definition isWordOpt :: "char option \<Rightarrow> bool" where
  "isWordOpt c = (case c of None \<Rightarrow> False | Some x \<Rightarrow> isWordChar x)"

text \<open>\<open>\b\<close> between the character \<open>a\<close> before and the character \<open>b\<close> after a position.\<close>

definition wordBoundary :: "char option \<Rightarrow> char option \<Rightarrow> bool" where
  "wordBoundary a b = (isWordOpt a \<noteq> isWordOpt b)"

fun searchFrom :: "(char option \<Rightarrow> string \<Rightarrow> bool) \<Rightarrow> char option \<Rightarrow> string \<Rightarrow> bool" where
  "searchFrom m prev [] = m prev []"
| "searchFrom m prev (c # cs) = (m prev (c # cs) \<or> searchFrom m (Some c) cs)"

definition regexTest :: "(char option \<Rightarrow> string \<Rightarrow> bool) \<Rightarrow> string \<Rightarrow> bool" where
  "regexTest m s = searchFrom m None s"

text \<open>
  The flag \<open>i\<close>: two characters match when they are the same letter of A-Z in either
  case; no character above U+007F matches an ASCII letter of a pattern.
\<close>

definition asciiLower :: "char \<Rightarrow> char" where
  "asciiLower c = (if isUpperAZ c then char_of ((of_char c :: nat) + 32) else c)"

fun startsWithCI :: "string \<Rightarrow> string \<Rightarrow> bool" where
  "startsWithCI s [] = True"
| "startsWithCI [] (p # ps) = False"
| "startsWithCI (c # cs) (p # ps) = (asciiLower c = asciiLower p \<and> startsWithCI cs ps)"

text \<open>
  \<open>\b(w1|w2|...)\b\<close> at one position: some alternative is a prefix of the rest, with a
  word boundary before it and after it.  \<open>ci\<close> is the flag \<open>i\<close>.
\<close>

definition wordHere :: "bool \<Rightarrow> string \<Rightarrow> char option \<Rightarrow> string \<Rightarrow> bool" where
  "wordHere ci w prev s =
     (wordBoundary prev (headOpt s) \<and>
      (if ci then startsWithCI s w else startsWith s w) \<and>
      wordBoundary (lastOpt prev (take (length w) s)) (headOpt (drop (length w) s)))"

definition anyWordHere :: "bool \<Rightarrow> string list \<Rightarrow> char option \<Rightarrow> string \<Rightarrow> bool" where
  "anyWordHere ci alts prev s = list_ex (\<lambda>w. wordHere ci w prev s) alts"

definition containsWord :: "bool \<Rightarrow> string list \<Rightarrow> string \<Rightarrow> bool" where
  "containsWord ci alts s = regexTest (anyWordHere ci alts) s"

section \<open>Vision history\<close>

datatype StepStatus = not_started | in_progress | complete | unclear

record VisionHistoryEntry =
  takenAtMs :: int
  entryObservation :: string
  entryStepStatus :: StepStatus

definition MAX_VISION_HISTORY :: nat where
  "MAX_VISION_HISTORY = 10"

text \<open>
  The tail of \<open>analyzeFrame\<close>: \<open>visionHistory.push(entry)\<close>, then the slice to the last
  ten entries when the length exceeds the capacity.
\<close>

definition pushVisionHistory :: "VisionHistoryEntry \<Rightarrow> VisionHistoryEntry list \<Rightarrow> VisionHistoryEntry list" where
  "pushVisionHistory entry history =
     (let pushed = history @ [entry]
      in if length pushed > MAX_VISION_HISTORY then sliceLast MAX_VISION_HISTORY pushed else pushed)"

section \<open>Recipe catalog\<close>

record StoredRecipe =
  dish :: string
  dishKey :: string
  recipe :: string
  completedAt :: string
  timesCooked :: nat

datatype MatchType = exact | fuzzy | none

record RecipeLookupResult =
  found :: bool
  query :: string
  matchType :: MatchType
  lookupRecipe :: "StoredRecipe option"

definition normalizeDishKey :: "string \<Rightarrow> string" where
  "normalizeDishKey input =
     replaceRuns isSpace
       (trim (replaceRuns (\<lambda>c. \<not> isAlnumLower c)
         (filter (\<lambda>c. c \<noteq> CHR 0x27) (toLowerCase input))))"

definition tokenizeDishKey :: "string \<Rightarrow> string list" where
  "tokenizeDishKey input =
     (let key = normalizeDishKey input
      in if key = [] then [] else filterBoolean (splitOn (\<lambda>c. c = CHR '' '') key))"

text \<open>
  The scores are IEEE doubles in the program and reals here.  Every quotient is a ratio
  of two token counts, the weighted coverage never exceeds the overlap, and the scores
  are compared with each other and with 0.62: rounding can change such a comparison
  only for a score of exactly 0.62 reached as 0.54 + 0.08, which takes token lists of
  fifty tokens.
\<close>

definition prefixBonus :: "string list \<Rightarrow> string list \<Rightarrow> real" where
  "prefixBonus candidateTokens queryTokens =
     (case (candidateTokens, queryTokens) of
        (c # _, q # _) \<Rightarrow> if c \<noteq> [] \<and> q \<noteq> [] \<and> c = q then 0.08 else 0
      | _ \<Rightarrow> 0)"

definition scoreDishMatch :: "string \<Rightarrow> string \<Rightarrow> real" where
  "scoreDishMatch queryKey candidateKey =
     (if queryKey = [] \<or> candidateKey = [] then 0
      else if queryKey = candidateKey then 1
      else if includesStr candidateKey queryKey \<or> includesStr queryKey candidateKey then 0.95
      else
        let queryTokens = tokenizeDishKey queryKey;
            candidateTokens = tokenizeDishKey candidateKey
        in if length queryTokens = 0 \<or> length candidateTokens = 0 then 0
           else
             let shared = length (filter (\<lambda>token. token \<in> set candidateTokens) queryTokens)
             in if shared = 0 then 0
                else
                  let overlap = real shared / real (min (length queryTokens) (length candidateTokens));
                      coverage = real shared / real (length queryTokens)
                  in min 1 (max overlap (coverage * 0.9) + prefixBonus candidateTokens queryTokens))"

text \<open>The loop of \<open>findBestFuzzyDishMatch\<close> with its two variables.\<close>

fun bestLoop :: "string \<Rightarrow> StoredRecipe list \<Rightarrow> real \<Rightarrow> StoredRecipe option \<Rightarrow> real \<times> StoredRecipe option" where
  "bestLoop queryKey [] bestScore bestRecipe = (bestScore, bestRecipe)"
| "bestLoop queryKey (candidate # rest) bestScore bestRecipe =
     (let score = scoreDishMatch queryKey (dishKey candidate)
      in if score > bestScore then bestLoop queryKey rest score (Some candidate)
         else bestLoop queryKey rest bestScore bestRecipe)"

definition findBestFuzzyDishMatch :: "string \<Rightarrow> StoredRecipe list \<Rightarrow> StoredRecipe option" where
  "findBestFuzzyDishMatch queryKey recipes =
     (case bestLoop queryKey recipes 0 None of
        (bestScore, bestRecipe) \<Rightarrow>
          if bestScore < 0.62 \<or> bestRecipe = None then None else bestRecipe)"

text \<open>
  \<open>RecipeStore.lookupByDish\<close>; \<open>recipes\<close> is what \<open>readFile\<close> returned, the entries of
  the recipe file.
\<close>

definition lookupByDish :: "StoredRecipe list \<Rightarrow> string \<Rightarrow> RecipeLookupResult" where
  "lookupByDish recipes dishQuery =
     (let q = trim dishQuery;
          queryKey = normalizeDishKey q
      in if queryKey = [] then \<lparr>found = False, query = q, matchType = none, lookupRecipe = None\<rparr>
         else
           case find (\<lambda>entry. dishKey entry = queryKey) recipes of
             Some e \<Rightarrow> \<lparr>found = True, query = q, matchType = exact, lookupRecipe = Some e\<rparr>
           | None \<Rightarrow>
               (case findBestFuzzyDishMatch queryKey recipes of
                  Some f \<Rightarrow> \<lparr>found = True, query = q, matchType = fuzzy, lookupRecipe = Some f\<rparr>
                | None \<Rightarrow> \<lparr>found = False, query = q, matchType = none, lookupRecipe = None\<rparr>))"

text \<open>
  \<open>Array.prototype.sort\<close> with a comparator is a stable sort; \<open>compare\<close> stands for
  \<open>a.dish.localeCompare(b.dish, "en")\<close>, which the runtime's collation data decides.
\<close>

fun insertSorted :: "(string \<Rightarrow> string \<Rightarrow> int) \<Rightarrow> StoredRecipe \<Rightarrow> StoredRecipe list \<Rightarrow> StoredRecipe list" where
  "insertSorted compare x [] = [x]"
| "insertSorted compare x (y # ys) =
     (if compare (dish x) (dish y) \<le> 0 then x # y # ys else y # insertSorted compare x ys)"

definition sortRecipes :: "(string \<Rightarrow> string \<Rightarrow> int) \<Rightarrow> StoredRecipe list \<Rightarrow> StoredRecipe list" where
  "sortRecipes compare rs = foldr (insertSorted compare) rs []"

fun findIndex :: "('a \<Rightarrow> bool) \<Rightarrow> 'a list \<Rightarrow> nat option" where
  "findIndex P [] = None"
| "findIndex P (x # xs) = (if P x then Some 0 else map_option Suc (findIndex P xs))"

text \<open>
  \<open>RecipeStore.saveCompletedRecipe\<close>: \<open>now\<close> is the timestamp of the call; the result
  is the thrown error or the saved entry with the new contents of the file.
\<close>

definition saveCompletedRecipe ::
  "(string \<Rightarrow> string \<Rightarrow> int) \<Rightarrow> string \<Rightarrow> StoredRecipe list \<Rightarrow> string \<Rightarrow> string
     \<Rightarrow> string + (StoredRecipe \<times> StoredRecipe list)" where
  "saveCompletedRecipe compare now recipes dishInput recipeInput =
     (let d = trim dishInput; r = trim recipeInput
      in if d = [] \<or> r = [] then Inl ''Both dish and recipe are required to save a completed recipe.''
         else
           let key = normalizeDishKey d
           in case findIndex (\<lambda>entry. dishKey entry = key) recipes of
                Some existingIndex \<Rightarrow>
                  let existing = recipes ! existingIndex;
                      saved = \<lparr>dish = d, dishKey = key, recipe = r, completedAt = now,
                                timesCooked = timesCooked existing + 1\<rparr>
                  in Inr (saved, sortRecipes compare (recipes[existingIndex := saved]))
              | None \<Rightarrow>
                  let saved = \<lparr>dish = d, dishKey = key, recipe = r, completedAt = now,
                                timesCooked = 1\<rparr>
                  in Inr (saved, sortRecipes compare (recipes @ [saved])))"

section \<open>Cooking state store\<close>

datatype ConversationRole = system | user | assistant | tool

record CookingState =
  originalPlan :: string
  completedSteps :: "string list"
  recentObservations :: "string list"
  conversationHistory :: "(ConversationRole \<times> string) list"

definition MAX_HISTORY_ITEMS :: nat where
  "MAX_HISTORY_ITEMS = 60"

definition MAX_OBSERVATIONS :: nat where
  "MAX_OBSERVATIONS = 30"

definition addCompletedStep :: "string \<Rightarrow> CookingState \<Rightarrow> CookingState" where
  "addCompletedStep step st = st\<lparr>completedSteps := completedSteps st @ [step]\<rparr>"

definition addObservation :: "string \<Rightarrow> CookingState \<Rightarrow> CookingState" where
  "addObservation obs st =
     (if trim obs = [] then st
      else
        let pushed = recentObservations st @ [trim obs]
        in st\<lparr>recentObservations :=
               (if length pushed > MAX_OBSERVATIONS then sliceLast MAX_OBSERVATIONS pushed else pushed)\<rparr>)"

text \<open>The timestamp of a conversation entry is left out.\<close>

definition recordConversation :: "ConversationRole \<Rightarrow> string \<Rightarrow> CookingState \<Rightarrow> CookingState" where
  "recordConversation role content st =
     (let v = trim content
      in if v = [] then st
         else
           let pushed = conversationHistory st @ [(role, v)]
           in st\<lparr>conversationHistory :=
                  (if length pushed > MAX_HISTORY_ITEMS then sliceLast MAX_HISTORY_ITEMS pushed else pushed)\<rparr>)"

function showNat :: "nat \<Rightarrow> string" where
  "showNat n = (if n < 10 then [char_of (48 + n)] else showNat (n div 10) @ [char_of (48 + n mod 10)])"
  by pat_completeness auto
termination
  by (relation "measure id") auto

section \<open>Server: speech gate, recipe completion, user messages\<close>

record SpeechAudio =
  mimeType :: string
  base64 :: string

datatype ServerEvent = speechEvent string SpeechAudio | errorEvent string

record Config =
  requireVoice :: bool
  speechRepeatCooldownMs :: real
  questionRepeatCooldownMs :: real
  minQuestionGapMs :: real

text \<open>
  The variables of \<open>main\<close> that the modelled handlers read and write.  \<open>recipeFile\<close> is
  the content of the recipe store, \<open>cooking\<close> the cooking state store, \<open>broadcasts\<close> the
  events sent to the clients, oldest first.
\<close>

record Server =
  lastSpokenTextKey :: string
  lastSpokenAtMs :: int
  waitingForUserAnswer :: bool
  lastQuestionAtMs :: int
  lastQuestionText :: string
  activeDishKey :: string
  recipeStoredForSession :: bool
  completionConfirmedForSession :: bool
  recipeFile :: "StoredRecipe list"
  cooking :: CookingState
  broadcasts :: "ServerEvent list"

subsection \<open>The speech gate\<close>

text \<open>\<open>/\?\s*$/\<close>: a question mark with only white space after it.\<close>

definition isQuestion :: "string \<Rightarrow> bool" where
  "isQuestion s = (case dropWhile isSpace (rev s) of [] \<Rightarrow> False | c # _ \<Rightarrow> c = CHR ''?'')"

definition urgentWords :: "string list" where
  "urgentWords = [''stop'', ''danger'', ''urgent'', ''fire'', ''smoke'', ''burn'', ''hot oil'',
                  ''knife'', ''raw chicken'', ''gas'']"

text \<open>\<open>/\b(stop|danger|urgent|fire|smoke|burn|hot oil|knife|raw chicken|gas)\b/i\<close>\<close>

definition isUrgentMessage :: "string \<Rightarrow> bool" where
  "isUrgentMessage message = containsWord True urgentWords message"

definition isLineTerminator :: "char \<Rightarrow> bool" where
  "isLineTerminator c = (c = CHR 0x0A \<or> c = CHR 0x0D)"

text \<open>\<open>.*\<close> followed by the rest of a pattern: any number of characters of one line.\<close>

fun dotStarThen :: "(char option \<Rightarrow> string \<Rightarrow> bool) \<Rightarrow> char option \<Rightarrow> string \<Rightarrow> bool" where
  "dotStarThen m prev [] = m prev []"
| "dotStarThen m prev (c # cs) =
     (m prev (c # cs) \<or> (\<not> isLineTerminator c \<and> dotStarThen m (Some c) cs))"

text \<open>A word between word boundaries, followed by the rest of a pattern.\<close>

definition wordThen ::
  "bool \<Rightarrow> string \<Rightarrow> (char option \<Rightarrow> string \<Rightarrow> bool) \<Rightarrow> char option \<Rightarrow> string \<Rightarrow> bool" where
  "wordThen ci w k prev s =
     (wordHere ci w prev s \<and> k (lastOpt prev (take (length w) s)) (drop (length w) s))"

text \<open>\<open>/\b(what|which)\b.*\b(kind|type|brand|milk|flour|pan|oil|butter|sugar|salt)\b/i\<close>\<close>

definition preferenceNouns :: "string list" where
  "preferenceNouns = [''kind'', ''type'', ''brand'', ''milk'', ''flour'', ''pan'', ''oil'',
                      ''butter'', ''sugar'', ''salt'']"

definition asksPreference :: "string \<Rightarrow> bool" where
  "asksPreference s =
     regexTest (\<lambda>prev r. list_ex (\<lambda>w. wordThen True w (dotStarThen (anyWordHere True preferenceNouns)) prev r)
                            [''what'', ''which'']) s"

datatype SpeakReturn =
    emptyText
  | duplicateRecent
  | awaitingAnswer
  | questionRepeatTooSoon
  | routinePreferenceQuestion
  | questionGapTooShort
  | spoken
  | voiceFailureBroadcast

text \<open>\<open>text.replace(/\s+/g, " ").trim().toLowerCase()\<close>\<close>

definition speechTextKey :: "string \<Rightarrow> string" where
  "speechTextKey text = toLowerCase (trim (replaceRuns isSpace text))"

text \<open>
  \<open>outputs.speak\<close>.  \<open>now\<close> is \<open>Date.now()\<close>, \<open>synthesize\<close> is the text-to-speech
  service (\<open>Inl\<close> the message of the error it throws).  The return value names the
  \<open>return\<close> statement taken; \<open>Inl\<close> is the error thrown when voice is required.
\<close>

definition speak ::
  "Config \<Rightarrow> (string \<Rightarrow> string + SpeechAudio) \<Rightarrow> int \<Rightarrow> string \<Rightarrow> Server \<Rightarrow> string + (SpeakReturn \<times> Server)" where
  "speak cfg synthesize now message sv =
     (let text = trim message
      in if text = [] then Inr (emptyText, sv)
         else
           let textKey = speechTextKey text;
               isQ = isQuestion text;
               isUrgent = isUrgentMessage text;
               isRoutinePreferenceQuestion = (isQ \<and> asksPreference text)
           in if textKey = lastSpokenTextKey sv \<and> real_of_int (now - lastSpokenAtMs sv) < speechRepeatCooldownMs cfg
              then Inr (duplicateRecent, sv)
              else if waitingForUserAnswer sv \<and> \<not> isUrgent
              then Inr (awaitingAnswer, sv)
              else if isQ \<and> waitingForUserAnswer sv \<and> real_of_int (now - lastQuestionAtMs sv) < questionRepeatCooldownMs cfg
              then Inr (questionRepeatTooSoon, sv)
              else if isRoutinePreferenceQuestion
              then Inr (routinePreferenceQuestion, sv)
              else if isQ \<and> \<not> isUrgent \<and> real_of_int (now - lastQuestionAtMs sv) < minQuestionGapMs cfg
              then Inr (questionGapTooShort, sv)
              else
                case synthesize text of
                  Inr audio \<Rightarrow>
                    let sv1 = sv\<lparr>broadcasts := broadcasts sv @ [speechEvent text audio],
                                  lastSpokenTextKey := textKey, lastSpokenAtMs := now\<rparr>
                    in Inr (spoken,
                            if isQ then sv1\<lparr>waitingForUserAnswer := True, lastQuestionAtMs := now,
                                            lastQuestionText := text\<rparr>
                            else sv1)
                | Inl errText \<Rightarrow>
                    if requireVoice cfg then Inl (''Voice output failed: '' @ errText)
                    else Inr (voiceFailureBroadcast,
                              sv\<lparr>broadcasts := broadcasts sv @ [errorEvent (''Voice output failed: '' @ errText)]\<rparr>))"

subsection \<open>Completing a recipe\<close>

record CompleteResult =
  ok :: bool
  saved :: bool
  error :: "string option"
  reason :: "string option"
  savedRecipe :: "StoredRecipe option"

definition failure :: "string \<Rightarrow> CompleteResult" where
  "failure msg = \<lparr>ok = False, saved = False, error = Some msg, reason = None, savedRecipe = None\<rparr>"

text \<open>
  \<open>completeRecipe\<close>: the result object and the server afterwards, or (\<open>Inl\<close>) the error
  thrown by the recipe store.  \<open>compare\<close> and \<open>now\<close> are passed on to the store.
\<close>

definition completeRecipe ::
  "(string \<Rightarrow> string \<Rightarrow> int) \<Rightarrow> string \<Rightarrow> string \<Rightarrow> string \<Rightarrow> Server \<Rightarrow> string + (CompleteResult \<times> Server)" where
  "completeRecipe compare now payloadDish payloadRecipe sv =
     (let d = trim payloadDish; r = trim payloadRecipe
      in if d = [] \<or> r = [] then Inr (failure ''Both dish and recipe are required.'', sv)
         else
           let key = normalizeDishKey d
           in if key = [] then Inr (failure ''Could not normalize dish name.'', sv)
              else if activeDishKey sv = [] then Inr (failure ''No active cooking session.'', sv)
              else if key \<noteq> activeDishKey sv
              then Inr (failure (''Dish \"'' @ d @ ''\" does not match active session dish.''), sv)
              else if recipeStoredForSession sv
              then Inr (\<lparr>ok = True, saved = False, error = None,
                         reason = Some ''already_saved_for_session'', savedRecipe = None\<rparr>, sv)
              else if \<not> completionConfirmedForSession sv
              then Inr (failure ''Recipe can only be saved after user confirms the dish is finished.'', sv)
              else
                case saveCompletedRecipe compare now (recipeFile sv) d r of
                  Inl e \<Rightarrow> Inl e
                | Inr (entry, file) \<Rightarrow>
                    Inr (\<lparr>ok = True, saved = True, error = None, reason = None, savedRecipe = Some entry\<rparr>,
                         sv\<lparr>recipeFile := file,
                            recipeStoredForSession := True,
                            completionConfirmedForSession := False,
                            cooking := addObservation
                              (''Saved completed recipe \"'' @ dish entry @ ''\" ('' @ showNat (timesCooked entry)
                                 @ '' total cook'' @ (if timesCooked entry = 1 then [] else ''s'') @ '').'')
                              (cooking sv)\<rparr>))"

subsection \<open>Completion confirmed by the user\<close>

text \<open>\<open>\s+\<close> followed by the rest of a pattern that cannot start with white space.\<close>

definition spacesThen :: "(char option \<Rightarrow> string \<Rightarrow> bool) \<Rightarrow> char option \<Rightarrow> string \<Rightarrow> bool" where
  "spacesThen k prev s =
     (let ws = takeWhile isSpace s in ws \<noteq> [] \<and> k (lastOpt prev ws) (dropWhile isSpace s))"

definition negationWords :: "string list" where
  "negationWords = [''not'', ''isn't'', ''isnt'', ''don't'', ''dont'']"

definition completionWords :: "string list" where
  "completionWords = [''done'', ''finished'', ''complete'', ''completed'']"

text \<open>\<open>/\b(not|isn't|isnt|don't|dont)\s+(done|finished|complete|completed)\b/i\<close> at one position.\<close>

definition negatedCompletionHere :: "char option \<Rightarrow> string \<Rightarrow> bool" where
  "negatedCompletionHere prev s =
     list_ex (\<lambda>n. wordBoundary prev (headOpt s) \<and> startsWithCI s n \<and>
                   spacesThen (\<lambda>p r. list_ex (\<lambda>w. startsWithCI r w \<and>
                        wordBoundary (lastOpt p (take (length w) r)) (headOpt (drop (length w) r)))
                      completionWords)
                     (lastOpt prev (take (length n) s)) (drop (length n) s))
       negationWords"

text \<open>
  \<open>/\b(done|finished|all done|complete|completed|that's it|thats it|we('?| a)re done|it's done|its done)\b/i\<close>
\<close>

definition affirmativeCompletionWords :: "string list" where
  "affirmativeCompletionWords =
     [''done'', ''finished'', ''all done'', ''complete'', ''completed'', ''that's it'', ''thats it'',
      ''we're done'', ''were done'', ''we are done'', ''it's done'', ''its done'']"

text \<open>\<open>/\b(done|finished|complete|completed|wrap up|stop now)\b/i\<close>\<close>

definition completionQuestionWords :: "string list" where
  "completionQuestionWords = [''done'', ''finished'', ''complete'', ''completed'', ''wrap up'', ''stop now'']"

text \<open>\<open>/^(yes|yep|yeah|correct|sure|ok|okay|affirmative)[.!]*$/i\<close>\<close>

definition isAffirmative :: "string \<Rightarrow> bool" where
  "isAffirmative s =
     list_ex (\<lambda>w. startsWithCI s w \<and> list_all (\<lambda>c. c = CHR ''.'' \<or> c = CHR ''!'') (drop (length w) s))
       [''yes'', ''yep'', ''yeah'', ''correct'', ''sure'', ''ok'', ''okay'', ''affirmative'']"

definition userConfirmedCompletion :: "string \<Rightarrow> bool \<Rightarrow> string \<Rightarrow> bool" where
  "userConfirmedCompletion message waitingForAnswer lastQuestion =
     (let normalized = toLowerCase (trim message)
      in if normalized = [] then False
         else if regexTest negatedCompletionHere normalized then False
         else if containsWord True affirmativeCompletionWords normalized then True
         else if \<not> waitingForAnswer then False
         else
           let askedAboutCompletion = containsWord True completionQuestionWords lastQuestion;
               affirmative = isAffirmative normalized
           in askedAboutCompletion \<and> affirmative)"

text \<open>
  The handler of \<open>POST /api/user-message\<close> up to the call of the assistant: \<open>None\<close> is
  the answer 400 for a blank message.
\<close>

definition userMessageRoute :: "string \<Rightarrow> Server \<Rightarrow> Server option" where
  "userMessageRoute body sv =
     (let message = trim body
      in if message = [] then None
         else
           let sv1 = (if userConfirmedCompletion message (waitingForUserAnswer sv) (lastQuestionText sv)
                      then sv\<lparr>completionConfirmedForSession := True\<rparr> else sv)
           in Some (sv1\<lparr>waitingForUserAnswer := False, lastQuestionText := []\<rparr>))"

text \<open>
  The message \<open>pre @ neg @ ws @ fin @ post\<close> holds a negated completion phrase: \<open>neg\<close> is
  one of the negation words and \<open>fin\<close> one of the completion words, in any case, with
  the white space \<open>ws\<close> between them, and the phrase is not part of a longer word.
\<close>

definition negatedCompletionPhrase :: "string \<Rightarrow> string \<Rightarrow> string \<Rightarrow> string \<Rightarrow> string \<Rightarrow> bool" where
  "negatedCompletionPhrase pre neg ws fin post =
     (toLowerCase neg \<in> set negationWords \<and> ws \<noteq> [] \<and> list_all isSpace ws \<and>
      toLowerCase fin \<in> set completionWords \<and>
      (pre = [] \<or> \<not> isWordChar (last pre)) \<and> (post = [] \<or> \<not> isWordChar (hd post)))"

section \<open>Assistant: frame assessment\<close>

text \<open>
  A JavaScript number that is not NaN is a real or an infinity here; rounding to a
  double is not modelled.
\<close>

datatype jsnumber = NaN | PosInfinity | NegInfinity | Finite real

datatype json =
    JNull
  | JBool bool
  | JNum jsnumber
  | JStr string
  | JArr "json list"
  | JObj "(string \<times> json) list"

record FrameAssessment =
  observation :: string
  stepStatus :: StepStatus
  confidence :: real
  reason :: string

text \<open>
  The fields of the assistant.  \<open>store\<close> is the cooking state store it writes to and
  \<open>panel\<close> the panel last passed to \<open>outputs.setPanel\<close> (cooking, next step).
\<close>

record Assistant =
  store :: CookingState
  previousResponseId :: "string option"
  currentDish :: string
  currentStep :: "string option"
  pendingNextStep :: "string option"
  latestFrameAssessment :: "FrameAssessment option"
  frameAllowsStepAdvance :: bool
  visionHistory :: "VisionHistoryEntry list"
  completedStepKeys :: "string set"
  lastRoutineSpeakAtMs :: int
  panel :: "(string \<times> string) option"

definition emptyCookingState :: CookingState where
  "emptyCookingState = \<lparr>originalPlan = [], completedSteps = [], recentObservations = [],
                          conversationHistory = []\<rparr>"

text \<open>The assistant after \<open>resetSession\<close>, with the store after \<open>reset\<close>.\<close>

definition resetSession :: Assistant where
  "resetSession = \<lparr>store = emptyCookingState, previousResponseId = None, currentDish = [],
                     currentStep = None, pendingNextStep = None, latestFrameAssessment = None,
                     frameAllowsStepAdvance = True, visionHistory = [], completedStepKeys = {},
                     lastRoutineSpeakAtMs = 0, panel = None\<rparr>"

text \<open>A string field that is neither \<open>null\<close> nor empty (a truthy \<open>string | null\<close>).\<close>

definition truthy :: "string option \<Rightarrow> bool" where
  "truthy v = (case v of None \<Rightarrow> False | Some s \<Rightarrow> s \<noteq> [])"

text \<open>
  \<open>JSON.parse\<close> is the parameter \<open>parse\<close>: \<open>None\<close> when it throws.  An object is the
  list of its own properties.
\<close>

definition tryParseUnknownJson :: "(string \<Rightarrow> json option) \<Rightarrow> string \<Rightarrow> json option" where
  "tryParseUnknownJson parse text =
     (case parse text of
        None \<Rightarrow> None
      | Some (JObj props) \<Rightarrow> Some (JObj props)
      | Some (JArr items) \<Rightarrow> Some (JArr items)
      | Some _ \<Rightarrow> None)"

text \<open>\<open>text.match(/\{[\s\S]*\}/)\<close>: from the first opening brace to the last closing brace after it.\<close>

definition matchBraces :: "string \<Rightarrow> string option" where
  "matchBraces text =
     (case dropWhile (\<lambda>c. c \<noteq> CHR ''{'') text of
        [] \<Rightarrow> None
      | b # rest \<Rightarrow>
          if CHR ''}'' \<in> set rest
          then Some (b # rev (dropWhile (\<lambda>c. c \<noteq> CHR ''}'') (rev rest)))
          else None)"

definition tryParseJsonObject :: "(string \<Rightarrow> json option) \<Rightarrow> string \<Rightarrow> (string \<times> json) list option" where
  "tryParseJsonObject parse text =
     (case tryParseUnknownJson parse text of
        Some (JObj props) \<Rightarrow> Some props
      | _ \<Rightarrow>
          (case matchBraces text of
             None \<Rightarrow> None
           | Some m \<Rightarrow>
               (case tryParseUnknownJson parse m of
                  Some (JObj props) \<Rightarrow> Some props
                | _ \<Rightarrow> None)))"

definition parseFrameAssessment :: "(string \<Rightarrow> json option) \<Rightarrow> string \<Rightarrow> (string \<times> json) list" where
  "parseFrameAssessment parse text =
     (case tryParseJsonObject parse text of None \<Rightarrow> [] | Some props \<Rightarrow> props)"

text \<open>\<open>a ?? b\<close> on property reads: \<open>None\<close> is \<open>undefined\<close>.\<close>

definition nullish :: "json option \<Rightarrow> json option \<Rightarrow> json option" where
  "nullish a b = (case a of None \<Rightarrow> b | Some JNull \<Rightarrow> b | Some v \<Rightarrow> Some v)"

definition coerceStepStatus :: "json option \<Rightarrow> StepStatus \<Rightarrow> StepStatus" where
  "coerceStepStatus v fallback =
     (case v of
        Some (JStr s) \<Rightarrow>
          if s = ''not_started'' then not_started
          else if s = ''in_progress'' then in_progress
          else if s = ''complete'' then complete
          else if s = ''unclear'' then unclear
          else fallback
      | _ \<Rightarrow> fallback)"

definition coerceConfidence :: "json option \<Rightarrow> real" where
  "coerceConfidence v =
     (case v of
        Some (JNum NaN) \<Rightarrow> 0.5
      | Some (JNum PosInfinity) \<Rightarrow> 1
      | Some (JNum NegInfinity) \<Rightarrow> 0
      | Some (JNum (Finite x)) \<Rightarrow> max 0 (min 1 x)
      | _ \<Rightarrow> 0.5)"

definition trimToWordLimit :: "string \<Rightarrow> nat \<Rightarrow> string" where
  "trimToWordLimit text maxWords =
     (let ws = filterBoolean (splitOn (\<lambda>c. c = CHR '' '') (trim (replaceRuns isSpace text)))
      in if length ws = 0 then []
         else if length ws \<le> maxWords then joinWith '' '' ws
         else joinWith '' '' (take maxWords ws) @ ''...'')"

definition stringOr :: "json option \<Rightarrow> string \<Rightarrow> string" where
  "stringOr v fallback = (case v of Some (JStr s) \<Rightarrow> s | _ \<Rightarrow> fallback)"

text \<open>
  \<open>analyzeFrame\<close> after the vision call: \<open>outputText\<close> is the text of the answer (empty
  when the call throws or answers no string) and \<open>takenAt\<close> the result of
  \<open>parseTimestampMs(frame.takenAt)\<close>.
\<close>

definition assessFrame :: "(string \<Rightarrow> json option) \<Rightarrow> string \<Rightarrow> Assistant \<Rightarrow> FrameAssessment" where
  "assessFrame parse outputText a =
     (let parsed = parseFrameAssessment parse outputText;
          defaultStatus = (if truthy (currentStep a) then unclear else not_started)
      in \<lparr>observation = trimToWordLimit (stringOr (map_of parsed ''observation'') ''No clear visual change.'') 14,
          stepStatus = coerceStepStatus (nullish (map_of parsed ''step_status'') (map_of parsed ''stepStatus''))
                         defaultStatus,
          confidence = coerceConfidence (map_of parsed ''confidence''),
          reason = trimToWordLimit (stringOr (map_of parsed ''reason'') ''Insufficient visual evidence.'') 18\<rparr>)"

definition historyEntry :: "int \<Rightarrow> FrameAssessment \<Rightarrow> VisionHistoryEntry" where
  "historyEntry takenAt assessment =
     \<lparr>takenAtMs = takenAt, entryObservation = observation assessment,
      entryStepStatus = stepStatus assessment\<rparr>"

definition analyzeFrame ::
  "(string \<Rightarrow> json option) \<Rightarrow> string \<Rightarrow> int \<Rightarrow> Assistant \<Rightarrow> FrameAssessment \<times> Assistant" where
  "analyzeFrame parse outputText takenAt a =
     (let assessment = assessFrame parse outputText a;
          entry = historyEntry takenAt assessment
      in (assessment, a\<lparr>visionHistory := pushVisionHistory entry (visionHistory a)\<rparr>))"

definition formatElapsedMs :: "int \<Rightarrow> string" where
  "formatElapsedMs elapsedMs =
     (let totalSeconds = nat (max 0 (elapsedMs div 1000));
          minutes = totalSeconds div 60;
          seconds = totalSeconds mod 60
      in if minutes > 0 then showNat minutes @ ''m '' @ showNat seconds @ ''s''
         else showNat seconds @ ''s'')"

definition formatHistoryEntry :: "VisionHistoryEntry list \<Rightarrow> VisionHistoryEntry \<Rightarrow> string" where
  "formatHistoryEntry history entry =
     (let firstTimestamp = (case history of [] \<Rightarrow> takenAtMs entry | e # _ \<Rightarrow> takenAtMs e);
          elapsedMs = max 0 (takenAtMs entry - firstTimestamp)
      in formatElapsedMs elapsedMs @ '' - '' @ entryObservation entry
           @ (if entryStepStatus entry = complete then '' (step complete)'' else []))"

text \<open>
  \<open>processFrame\<close> up to the model turn: the assessment is stored, the gate flag is
  recomputed and the observation is logged.  \<open>nowMs\<close> is \<open>Date.now()\<close>, read when the
  history is empty.
\<close>

definition ingestFrame ::
  "(string \<Rightarrow> json option) \<Rightarrow> string \<Rightarrow> int \<Rightarrow> int \<Rightarrow> Assistant \<Rightarrow> Assistant" where
  "ingestFrame parse outputText takenAt nowMs a =
     (case analyzeFrame parse outputText takenAt a of
        (assessment, a1) \<Rightarrow>
          let a2 = a1\<lparr>latestFrameAssessment := Some assessment,
                      frameAllowsStepAdvance := (\<not> truthy (currentStep a1) \<or> stepStatus assessment = complete)\<rparr>;
              shown = (if visionHistory a2 = [] then historyEntry nowMs assessment
                       else last (visionHistory a2))
          in a2\<lparr>store := addObservation (''vision: '' @ formatHistoryEntry (visionHistory a2) shown) (store a2)\<rparr>)"

text \<open>Frames in arrival order: answer text and capture time of each.\<close>

definition ingestFrames ::
  "(string \<Rightarrow> json option) \<Rightarrow> (string \<times> int) list \<Rightarrow> int \<Rightarrow> Assistant \<Rightarrow> Assistant" where
  "ingestFrames parse frames nowMs a = foldl (\<lambda>s (text, t). ingestFrame parse text t nowMs s) a frames"

section \<open>Assistant: the step lock\<close>

definition isTerminator :: "char \<Rightarrow> bool" where
  "isTerminator c = (c = CHR ''.'' \<or> c = CHR ''!'' \<or> c = CHR ''?'')"

definition endsWithTerminator :: "string \<Rightarrow> bool" where
  "endsWithTerminator s = (s \<noteq> [] \<and> isTerminator (last s))"

text \<open>\<open>step.replace(/^next\s*step\s*[:\-]\s*/i, "")\<close>\<close>

definition stripNextStepLabel :: "string \<Rightarrow> string" where
  "stripNextStepLabel s =
     (if startsWithCI s ''next''
      then
        let r1 = dropWhile isSpace (drop 4 s)
        in if startsWithCI r1 ''step''
           then (case dropWhile isSpace (drop 4 r1) of
                   [] \<Rightarrow> s
                 | c # r2 \<Rightarrow> if c = CHR '':'' \<or> c = CHR ''-'' then dropWhile isSpace r2 else s)
           else s
      else s)"

text \<open>\<open>step.replace(/^step\s*\d+\s*[:.)-]?\s*/i, "")\<close>\<close>

definition stripStepNumberLabel :: "string \<Rightarrow> string" where
  "stripStepNumberLabel s =
     (if startsWithCI s ''step''
      then
        let r1 = dropWhile isSpace (drop 4 s)
        in if takeWhile isDigit r1 = [] then s
           else
             let r2 = dropWhile isSpace (dropWhile isDigit r1);
                 r3 = (case r2 of
                         [] \<Rightarrow> r2
                       | c # r \<Rightarrow>
                           if c = CHR '':'' \<or> c = CHR ''.'' \<or> c = CHR '')'' \<or> c = CHR ''-'' then r else r2)
             in dropWhile isSpace r3
      else s)"

text \<open>
  \<open>step.replace(/^[-*\<bullet>]\s+/, "")\<close>; the bullet U+2022 is outside the 8-bit
  characters, so only the hyphen and the asterisk occur here.
\<close>

definition stripBullet :: "string \<Rightarrow> string" where
  "stripBullet s =
     (case s of
        [] \<Rightarrow> s
      | c # r \<Rightarrow>
          if (c = CHR ''-'' \<or> c = CHR ''*'') \<and> takeWhile isSpace r \<noteq> [] then dropWhile isSpace r else s)"

text \<open>\<open>step.search(/[.!?]/)\<close> and the slice up to and including the terminator found.\<close>

definition truncateAtTerminator :: "string \<Rightarrow> string" where
  "truncateAtTerminator step =
     (case dropWhile (\<lambda>c. \<not> isTerminator c) step of
        [] \<Rightarrow> step
      | t # _ \<Rightarrow> trim (takeWhile (\<lambda>c. \<not> isTerminator c) step @ [t]))"

text \<open>\<open>step.replace(/[.!?]+$/g, "")\<close>\<close>

definition stripTrailingTerminators :: "string \<Rightarrow> string" where
  "stripTrailingTerminators s = rev (dropWhile isTerminator (rev s))"

definition firstNonBlankLine :: "string \<Rightarrow> string option" where
  "firstNonBlankLine input =
     find (\<lambda>line. length line > 0)
       (map trim (splitOn (\<lambda>c. c = CHR 0x0A) (map (\<lambda>c. if c = CHR 0x0D then CHR 0x0A else c) input)))"

definition sanitizePanelStep :: "string \<Rightarrow> string" where
  "sanitizePanelStep input =
     (case firstNonBlankLine input of
        None \<Rightarrow> []
      | Some firstLine \<Rightarrow>
          let step = trim (stripBullet (stripStepNumberLabel (stripNextStepLabel firstLine)))
          in if step = [] then []
             else
               let step1 = truncateAtTerminator step;
                   step2 = (if endsWithTerminator step1 then step1 else step1 @ ''.'');
                   ws = splitWords isSpace (stripTrailingTerminators step2)
               in if length ws > 12 then joinWith '' '' (take 12 ws) @ ''.'' else step2)"

text \<open>The number of positions at which a pattern matches (\<open>text.match(/.../g).length\<close>).\<close>

fun countFrom :: "(char option \<Rightarrow> string \<Rightarrow> bool) \<Rightarrow> char option \<Rightarrow> string \<Rightarrow> nat" where
  "countFrom m prev [] = (if m prev [] then 1 else 0)"
| "countFrom m prev (c # cs) = (if m prev (c # cs) then 1 else 0) + countFrom m (Some c) cs"

definition isStepTooBroad :: "string \<Rightarrow> bool" where
  "isStepTooBroad step =
     (let text = toLowerCase step
      in if trim text = [] then True
         else if containsWord False [''analyse'', ''analysing'', ''analysed'', ''analysis'',
                                     ''analyze'', ''analyzing'', ''analyzed'', ''analyzis''] text then True
         else if containsWord False [''ingredient'', ''ingredients''] text then True
         else if containsWord False [''then'', ''after that'', ''next''] text then True
         else if length (filter (\<lambda>c. c = CHR '','') text) \<ge> 2 then True
         else if countFrom (wordHere False ''and'') None text \<ge> 2 then True
         else if takeWhile isDigit text \<noteq> [] \<and>
                 (case dropWhile isDigit text of [] \<Rightarrow> False | c # _ \<Rightarrow> c = CHR '')'' \<or> c = CHR ''.'') then True
         else length (splitWords isSpace text) > 12)"

definition normalizeStepKey :: "string \<Rightarrow> string" where
  "normalizeStepKey input =
     trim (replaceRuns isSpace
       (map (\<lambda>c. if isAlnumLower c \<or> isSpace c then c else CHR '' '') (toLowerCase input)))"

definition STOPWORDS :: "string list" where
  "STOPWORDS = [''a'', ''an'', ''and'', ''are'', ''as'', ''at'', ''be'', ''by'', ''for'', ''from'', ''has'',
                ''have'', ''in'', ''into'', ''is'', ''it'', ''of'', ''on'', ''or'', ''that'', ''the'', ''then'',
                ''to'', ''up'', ''with'', ''your'', ''you'']"

definition dropLast :: "nat \<Rightarrow> string \<Rightarrow> string" where
  "dropLast n s = take (length s - n) s"

definition normalizeToken :: "string \<Rightarrow> string" where
  "normalizeToken token =
     (let normalized = trim token
      in if length normalized \<le> 2 then []
         else if endsWith normalized ''ing'' \<and> length normalized > 5 then dropLast 3 normalized
         else if endsWith normalized ''ed'' \<and> length normalized > 4 then dropLast 2 normalized
         else if endsWith normalized ''es'' \<and> length normalized > 4 then dropLast 2 normalized
         else if endsWith normalized ''s'' \<and> length normalized > 3 then dropLast 1 normalized
         else normalized)"

definition tokenize :: "string \<Rightarrow> string list" where
  "tokenize text =
     filter (\<lambda>t. t \<noteq> [] \<and> t \<notin> set STOPWORDS)
       (map normalizeToken (filterBoolean (splitOn (\<lambda>c. \<not> isAlnumLower c) (toLowerCase text))))"

text \<open>The two token sets are duplicate-free lists in insertion order.\<close>

definition tokenOverlap :: "string \<Rightarrow> string \<Rightarrow> real" where
  "tokenOverlap left right =
     (let leftTokens = remdups (tokenize left);
          rightTokens = remdups (tokenize right)
      in if length leftTokens = 0 \<or> length rightTokens = 0 then 0
         else real (length (filter (\<lambda>t. t \<in> set rightTokens) leftTokens))
                / real (min (length leftTokens) (length rightTokens)))"

definition isSameStep :: "string \<Rightarrow> string \<Rightarrow> bool" where
  "isSameStep left right =
     (let leftKey = normalizeStepKey left;
          rightKey = normalizeStepKey right
      in if leftKey = [] \<or> rightKey = [] then False
         else if leftKey = rightKey then True
         else tokenOverlap leftKey rightKey \<ge> 0.65)"

definition markCurrentStepCompleted :: "Assistant \<Rightarrow> Assistant" where
  "markCurrentStepCompleted a =
     (case currentStep a of
        None \<Rightarrow> a
      | Some cur \<Rightarrow>
          if cur = [] then a
          else
            let key = normalizeStepKey cur
            in if key = [] \<or> key \<in> completedStepKeys a then a
               else a\<lparr>completedStepKeys := insert key (completedStepKeys a),
                      store := addCompletedStep cur (store a)\<rparr>)"

definition statusName :: "StepStatus \<Rightarrow> string" where
  "statusName s =
     (case s of not_started \<Rightarrow> ''not_started'' | in_progress \<Rightarrow> ''in_progress''
      | complete \<Rightarrow> ''complete'' | unclear \<Rightarrow> ''unclear'')"

text \<open>
  The result objects of \<open>applyPanelStepGate\<close>:
  \<^item> \<open>emptyStep\<close> is \<open>{ok: false, error: "next_step is empty"}\<close>;
  \<^item> \<open>tooBroad\<close> is \<open>{ok: false, blocked: true, reason: "next_step_must_be_single_action", ...}\<close>;
  \<^item> \<open>stepLocked s\<close> is \<open>{ok: true, step_locked: s, advanced: false}\<close>;
  \<^item> \<open>notVisuallyComplete c n f\<close> is \<open>{ok: false, blocked: true,
    reason: "current_step_not_visually_complete", current_step: c, requested_next_step: n,
    frame_status: f}\<close>;
  \<^item> \<open>stepAdvanced s\<close> is \<open>{ok: true, advanced: true, current_step: s}\<close>.
\<close>

datatype PanelResult =
    emptyStep
  | tooBroad
  | stepLocked string
  | notVisuallyComplete string string string
  | stepAdvanced string

definition applyPanelStepGate :: "string \<Rightarrow> string \<Rightarrow> Assistant \<Rightarrow> PanelResult \<times> Assistant" where
  "applyPanelStepGate cookingName requestedStep a =
     (let nextStep = sanitizePanelStep requestedStep
      in if nextStep = [] then (emptyStep, a)
         else if isStepTooBroad nextStep
         then (tooBroad, a\<lparr>store := addObservation (''step_rejected: \"'' @ requestedStep @ ''\"'') (store a)\<rparr>)
         else
           let a1 = a\<lparr>currentDish := (if trim cookingName \<noteq> [] then trim cookingName else currentDish a)\<rparr>;
               locked = (stepLocked nextStep,
                         a1\<lparr>currentStep := Some nextStep, pendingNextStep := None,
                            panel := Some (cookingName, nextStep)\<rparr>)
           in case currentStep a1 of
                None \<Rightarrow> locked
              | Some cur \<Rightarrow>
                  if cur = [] then locked
                  else if isSameStep cur nextStep then locked
                  else
                    let a2 = a1\<lparr>pendingNextStep := Some nextStep\<rparr>
                    in if \<not> frameAllowsStepAdvance a2
                       then (notVisuallyComplete cur nextStep
                               (case latestFrameAssessment a2 of
                                  None \<Rightarrow> ''unknown'' | Some f \<Rightarrow> statusName (stepStatus f)),
                             a2\<lparr>store := addObservation
                                    (''step_gate_blocked: waiting to finish \"'' @ cur
                                       @ ''\" before \"'' @ nextStep @ ''\".'')
                                    (store a2)\<rparr>)
                       else
                         let a3 = markCurrentStepCompleted a2
                         in (stepAdvanced nextStep,
                             a3\<lparr>currentStep := Some nextStep, pendingNextStep := None,
                                panel := Some (cookingName, nextStep)\<rparr>))"

text \<open>\<open>clear_panel\<close> in \<open>executeFunctionCall\<close>.\<close>

definition clearPanelTool :: "Assistant \<Rightarrow> Assistant" where
  "clearPanelTool a = a\<lparr>panel := None, currentStep := None, pendingNextStep := None\<rparr>"

subsection \<open>The step gate on speech\<close>

definition ROUTINE_SPEAK_MIN_GAP_MS :: int where
  "ROUTINE_SPEAK_MIN_GAP_MS = 45000"

definition messageMatchesCurrentStep :: "string \<Rightarrow> Assistant \<Rightarrow> bool" where
  "messageMatchesCurrentStep message a =
     (case currentStep a of
        None \<Rightarrow> True
      | Some cur \<Rightarrow>
          if cur = [] then True
          else if tokenOverlap cur message \<ge> 0.25 then True
          else
            let messageKey = normalizeStepKey message;
                stepKey = normalizeStepKey cur
            in if messageKey = [] \<or> stepKey = [] then True
               else includesStr messageKey stepKey \<or> includesStr stepKey messageKey)"

definition getBlockedSpeakReason :: "int \<Rightarrow> string \<Rightarrow> Assistant \<Rightarrow> string option" where
  "getBlockedSpeakReason now message a =
     (if \<not> truthy (currentStep a) \<or> frameAllowsStepAdvance a then None
      else if isUrgentMessage message \<or> isQuestion message then None
      else if \<not> messageMatchesCurrentStep message a then Some ''blocked_next_step_until_visual_completion''
      else if now - lastRoutineSpeakAtMs a < ROUTINE_SPEAK_MIN_GAP_MS then Some ''step_waiting_repeat_suppressed''
      else None)"

text \<open>
  The case \<open>speak\<close> of \<open>executeFunctionCall\<close> for a message already read by
  \<open>readStringArg\<close>: the step gate, then \<open>outputs.speak\<close>.  \<open>nowGate\<close>, \<open>nowSpeak\<close> and
  \<open>nowAfter\<close> are the three readings of the clock.
\<close>

datatype SpeakToolResult = suppressed string | passedOn SpeakReturn

definition speakTool ::
  "Config \<Rightarrow> (string \<Rightarrow> string + SpeechAudio) \<Rightarrow> int \<Rightarrow> int \<Rightarrow> int \<Rightarrow> string
     \<Rightarrow> Assistant \<times> Server \<Rightarrow> string + (SpeakToolResult \<times> Assistant \<times> Server)" where
  "speakTool cfg synthesize nowGate nowSpeak nowAfter message w =
     (case w of
        (a, sv) \<Rightarrow>
          (case getBlockedSpeakReason nowGate message a of
             Some blockedReason \<Rightarrow> Inr (suppressed blockedReason, a, sv)
           | None \<Rightarrow>
               (case speak cfg synthesize nowSpeak message sv of
                  Inl e \<Rightarrow> Inl e
                | Inr (r, sv1) \<Rightarrow>
                    let a1 = a\<lparr>store := recordConversation assistant message (store a)\<rparr>;
                        a2 = (if \<not> isQuestion message \<and> \<not> isUrgentMessage message
                              then a1\<lparr>lastRoutineSpeakAtMs := nowAfter\<rparr> else a1)
                    in Inr (passedOn r, a2, sv1))))"

section \<open>Assistant: the tool-call loop\<close>















subsection \<open>Tool arguments\<close>



section \<open>Example sessions\<close>

text \<open>A server in a session for pancakes, nothing spoken, saved or confirmed yet.\<close>

definition pancakeServer :: Server where
  "pancakeServer =
     \<lparr>lastSpokenTextKey = [], lastSpokenAtMs = 0, waitingForUserAnswer = False,
      lastQuestionAtMs = 0, lastQuestionText = [], activeDishKey = ''pancakes'',
      recipeStoredForSession = False, completionConfirmedForSession = False,
      recipeFile = [], cooking = emptyCookingState, broadcasts = []\<rparr>"

text \<open>The default configuration of the server.\<close>

definition defaultConfig :: Config where
  "defaultConfig = \<lparr>requireVoice = True, speechRepeatCooldownMs = 120000,
                     questionRepeatCooldownMs = 180000, minQuestionGapMs = 600000\<rparr>"

text \<open>
  An assistant with the step \<open>Grab 2 eggs.\<close> locked and a latest frame that shows the
  step in progress, so that the gate flag is off.
\<close>

definition eggsLocked :: Assistant where
  "eggsLocked =
     resetSession\<lparr>currentDish := ''pancakes'', currentStep := Some ''Grab 2 eggs.'',
                  latestFrameAssessment := Some \<lparr>observation = ''Hand reaches for the egg carton.'',
                                                 stepStatus = in_progress, confidence = 0.8,
                                                 reason = ''Eggs are not on the bench yet.''\<rparr>,
                  frameAllowsStepAdvance := False\<rparr>"

text \<open>A text-to-speech service that always answers.\<close>

definition silentAudio :: "string \<Rightarrow> string + SpeechAudio" where
  "silentAudio t = Inr \<lparr>mimeType = ''audio/mpeg'', base64 = []\<rparr>"

text \<open>The server one second after the warning \<open>Stop! The pan is on fire.\<close> was spoken.\<close>

definition warnedServer :: Server where
  "warnedServer = pancakeServer\<lparr>lastSpokenTextKey := ''stop! the pan is on fire.'', lastSpokenAtMs := 1000\<rparr>"

text \<open>The server while the question \<open>Is the pan hot?\<close>, asked at 1000 ms, is unanswered.\<close>

definition askingServer :: Server where
  "askingServer = pancakeServer\<lparr>lastSpokenTextKey := ''is the pan hot?'', lastSpokenAtMs := 1000,
                                 waitingForUserAnswer := True, lastQuestionAtMs := 1000,
                                 lastQuestionText := ''Is the pan hot?''\<rparr>"






text \<open>
  What \<open>JSON.parse\<close> gives on three answers of the vision model; it throws on any other
  text here.
\<close>

definition sampleParse :: "string \<Rightarrow> json option" where
  "sampleParse t =
     (if t = ''{\"observation\":\"Eggs on the bench.\",\"stepStatus\":\"complete\",\"confidence\":0.9}''
      then Some (JObj [(''observation'', JStr ''Eggs on the bench.''), (''stepStatus'', JStr ''complete''),
                       (''confidence'', JNum (Finite 0.9))])
      else if t = ''{\"step_status\":null,\"stepStatus\":\"complete\"}''
      then Some (JObj [(''step_status'', JNull), (''stepStatus'', JStr ''complete'')])
      else if t = ''{\"step_status\":\"done\",\"confidence\":7,\"reason\":42}''
      then Some (JObj [(''step_status'', JStr ''done''), (''confidence'', JNum (Finite 7)), (''reason'', JNum (Finite 42))])
      else None)"

text \<open>Three entries of a recipe file.\<close>

definition pastaEntry :: StoredRecipe where
  "pastaEntry = \<lparr>dish = ''Pasta Bolognese'', dishKey = ''pasta bolognese'',
                   recipe = ''Brown the mince, add tomatoes, simmer, serve on pasta.'',
                   completedAt = ''2026-01-01T00:00:00.000Z'', timesCooked = 1\<rparr>"

definition curryEntry :: StoredRecipe where
  "curryEntry = \<lparr>dish = ''Chicken Masala Curry'', dishKey = ''chicken masala curry'',
                   recipe = ''Fry the spices, add chicken and sauce, simmer.'',
                   completedAt = ''2026-02-01T00:00:00.000Z'', timesCooked = 2\<rparr>"

definition eggplantEntry :: StoredRecipe where
  "eggplantEntry = \<lparr>dish = ''Eggplant Parmesan'', dishKey = ''eggplant parmesan'',
                      recipe = ''Fry the eggplant slices, layer with sauce and cheese, bake.'',
                      completedAt = ''2026-03-01T00:00:00.000Z'', timesCooked = 1\<rparr>"

section \<open>Properties of the string functions\<close>

lemma splitOn_nonempty [simp]: "splitOn sep s \<noteq> []"
  by (induction s) (auto split: list.splits)

lemma splitOn_cons_sep: "sep c \<Longrightarrow> splitOn sep (c # cs) = [] # splitOn sep cs"
  by simp

lemma splitOn_cons_nonsep:
  "\<not> sep c \<Longrightarrow> splitOn sep (c # cs) = (c # hd (splitOn sep cs)) # tl (splitOn sep cs)"
  by (cases "splitOn sep cs") auto

lemma splitOn_no_sep: "\<forall>c\<in>set w. \<not> sep c \<Longrightarrow> splitOn sep w = [w]"
  by (induction w) (auto simp: splitOn_cons_nonsep)

lemma splitOn_append_sep:
  "\<forall>c\<in>set w. \<not> sep c \<Longrightarrow> sep d \<Longrightarrow> splitOn sep (w @ d # rest) = w # splitOn sep rest"
  by (induction w) (auto simp: splitOn_cons_nonsep)

lemma splitOn_pieces_no_sep: "\<forall>w\<in>set (splitOn sep s). \<forall>c\<in>set w. \<not> sep c"
proof (induction s)
  case Nil
  then show ?case by simp
next
  case (Cons x xs)
  obtain p ps where sp: "splitOn sep xs = p # ps"
    by (cases "splitOn sep xs") auto
  show ?case using Cons sp by auto
qed

lemma splitOn_joinWith:
  "ws \<noteq> [] \<Longrightarrow> \<forall>w\<in>set ws. \<forall>c\<in>set w. \<not> sep c \<Longrightarrow> sep d \<Longrightarrow>
   splitOn sep (joinWith [d] ws) = ws"
proof (induction ws)
  case Nil
  then show ?case by simp
next
  case (Cons w ws)
  show ?case
  proof (cases ws)
    case Nil
    then show ?thesis using Cons.prems by (simp add: splitOn_no_sep)
  next
    case (Cons v vs)
    have "splitOn sep (joinWith [d] ws) = ws"
      using Cons.IH Cons.prems Cons by simp
    moreover have "joinWith [d] (w # ws) = w @ d # joinWith [d] ws"
      using Cons by simp
    ultimately show ?thesis
      using Cons.prems splitOn_append_sep [of w sep d "joinWith [d] ws"] by simp
  qed
qed

lemma splitOn_append:
  "splitOn sep (xs @ ys) =
     butlast (splitOn sep xs) @ [last (splitOn sep xs) @ hd (splitOn sep ys)] @ tl (splitOn sep ys)"
proof (induction xs)
  case Nil
  then show ?case by simp
next
  case (Cons x xs)
  show ?case
  proof (cases "sep x")
    case True
    then show ?thesis using Cons by simp
  next
    case False
    show ?thesis
    proof (cases "splitOn sep xs")
      case Nil
      then show ?thesis by simp
    next
      case (Cons p ps)
      then show ?thesis using False Cons.IH
        by (cases ps) (auto simp: splitOn_cons_nonsep)
    qed
  qed
qed

lemma splitWords_prefix_le:
  "length (splitWords sep xs) \<le> length (splitWords sep (xs @ ys))"
proof -
  have "filterBoolean (splitOn sep xs) = filterBoolean (butlast (splitOn sep xs)) @ filterBoolean [last (splitOn sep xs)]"
    by (metis filterBoolean_def filter_append append_butlast_last_id splitOn_nonempty)
  then show ?thesis
    by (simp add: splitWords_def splitOn_append filterBoolean_def)
qed


lemma isSpace_blank [simp]: "isSpace (CHR '' '')"
  by (simp add: isSpace_def)

lemma filterBoolean_simps [simp]:
  "filterBoolean [] = []"
  "filterBoolean ([] # ws) = filterBoolean ws"
  "w \<noteq> [] \<Longrightarrow> filterBoolean (w # ws) = w # filterBoolean ws"
  by (simp_all add: filterBoolean_def)

lemma splitWords_dropWhile_sep: "splitWords sep (dropWhile sep s) = splitWords sep s"
  by (induction s) (auto simp: splitWords_def)

lemma splitWords_snoc_sep: "sep c \<Longrightarrow> splitWords sep (s @ [c]) = splitWords sep s"
proof -
  assume c: "sep c"
  have "splitOn sep (s @ [c]) = splitOn sep s @ [[]]"
    using c by (simp add: splitOn_append)
  then show ?thesis by (simp add: splitWords_def filterBoolean_def)
qed

lemma splitWords_strip_trailing_sep:
  "splitWords sep (rev (dropWhile sep (rev s))) = splitWords sep s"
proof (induction s rule: rev_induct)
  case Nil
  then show ?case by simp
next
  case (snoc c s)
  then show ?case by (cases "sep c") (auto simp: splitWords_snoc_sep)
qed

lemma replaceRuns_only_blank:
  "c \<in> set (replaceRuns P s) \<Longrightarrow> P c \<Longrightarrow> c = CHR '' ''"
  by (induction P s rule: replaceRuns.induct) (auto split: if_splits)

lemma splitOn_cong_on_set:
  "\<forall>c\<in>set s. sep c = sep' c \<Longrightarrow> splitOn sep s = splitOn sep' s"
  by (induction s) auto

lemma replaceRuns_words:
  "hd (splitOn isSpace (replaceRuns isSpace s)) = hd (splitOn isSpace s) \<and>
   splitWords isSpace (replaceRuns isSpace s) = splitWords isSpace s"
proof (induction "isSpace" s rule: replaceRuns.induct)
  case 1
  then show ?case by simp
next
  case (2 c cs)
  show ?case
  proof (cases "isSpace c")
    case True
    then show ?thesis
      using 2(1) splitWords_dropWhile_sep [of isSpace cs] by (simp add: splitWords_def)
  next
    case False
    let ?X = "splitOn isSpace (replaceRuns isSpace cs)"
    let ?Y = "splitOn isSpace cs"
    have ih: "hd ?X = hd ?Y" "filterBoolean ?X = filterBoolean ?Y"
      using 2(2) False by (simp_all add: splitWords_def)
    have tl: "filterBoolean (tl ?X) = filterBoolean (tl ?Y)"
    proof -
      obtain p ps where x: "?X = p # ps" by (cases ?X) auto
      obtain q qs where y: "?Y = q # qs" by (cases ?Y) auto
      show ?thesis using ih x y by (cases "p = []") (auto simp: filterBoolean_def)
    qed
    show ?thesis
      using False ih tl by (simp add: splitWords_def splitOn_cons_nonsep del: splitOn.simps)
  qed
qed

lemma set_trim_subset: "set (trim s) \<subseteq> set s"
proof
  fix c assume "c \<in> set (trim s)"
  then have "c \<in> set (dropWhile isSpace (rev (dropWhile isSpace s)))"
    by (simp add: trim_def)
  then have "c \<in> set (rev (dropWhile isSpace s))"
    by (rule set_dropWhileD)
  then have "c \<in> set (dropWhile isSpace s)" by simp
  then show "c \<in> set s" by (rule set_dropWhileD)
qed

lemma words_of_collapsed:
  "filterBoolean (splitOn (\<lambda>c. c = CHR '' '') (trim (replaceRuns isSpace s))) = splitWords isSpace s"
proof -
  let ?t = "trim (replaceRuns isSpace s)"
  have sub: "set ?t \<subseteq> set (replaceRuns isSpace s)"
    by (rule set_trim_subset)
  have "\<forall>c\<in>set ?t. (c = CHR '' '') = isSpace c"
    using sub replaceRuns_only_blank [of _ isSpace s] by auto
  then have "splitOn (\<lambda>c. c = CHR '' '') ?t = splitOn isSpace ?t"
    by (rule splitOn_cong_on_set)
  then have "filterBoolean (splitOn (\<lambda>c. c = CHR '' '') ?t) = splitWords isSpace ?t"
    by (simp add: splitWords_def)
  also have "\<dots> = splitWords isSpace (replaceRuns isSpace s)"
    by (simp add: trim_def splitWords_strip_trailing_sep splitWords_dropWhile_sep)
  also have "\<dots> = splitWords isSpace s"
    using replaceRuns_words by simp
  finally show ?thesis .
qed

lemma splitWords_pieces:
  "w \<in> set (splitWords sep s) \<Longrightarrow> w \<noteq> [] \<and> (\<forall>c\<in>set w. \<not> sep c)"
  using splitOn_pieces_no_sep [of sep s] by (auto simp: splitWords_def filterBoolean_def)

lemma splitWords_joinWith:
  assumes "\<forall>w\<in>set ws. w \<noteq> [] \<and> (\<forall>c\<in>set w. \<not> sep c)" "sep d"
  shows "splitWords sep (joinWith [d] ws) = ws"
proof (cases "ws = []")
  case True
  then show ?thesis by (simp add: splitWords_def)
next
  case False
  then have "splitOn sep (joinWith [d] ws) = ws"
    using assms splitOn_joinWith [of ws sep d] by blast
  then show ?thesis using assms(1) by (simp add: splitWords_def filterBoolean_def filter_id_conv)
qed

lemma splitWords_joinWith_suffix:
  assumes "\<forall>w\<in>set ws. w \<noteq> [] \<and> (\<forall>c\<in>set w. \<not> sep c)" "sep d" "ws \<noteq> []" "\<forall>c\<in>set e. \<not> sep c"
  shows "length (splitWords sep (joinWith [d] ws @ e)) = length ws"
proof -
  have a: "splitOn sep (joinWith [d] ws) = ws"
    using assms splitOn_joinWith [of ws sep d] by blast
  have "splitOn sep (joinWith [d] ws @ e) = butlast ws @ [last ws @ e]"
    by (simp add: splitOn_append a splitOn_no_sep [OF assms(4)])
  moreover have "last ws \<noteq> []" using assms(1,3) by simp
  moreover have "\<forall>w\<in>set (butlast ws). w \<noteq> []" using assms(1) by (meson in_set_butlastD)
  ultimately show ?thesis using assms(3)
    by (simp add: splitWords_def filterBoolean_def filter_id_conv)
qed

lemma sliceLast_short: "length xs \<le> n \<Longrightarrow> sliceLast n xs = xs"
  by (simp add: sliceLast_def)

lemma length_sliceLast: "length (sliceLast n xs) = min n (length xs)"
  by (auto simp: sliceLast_def)

lemma sliceLast_append:
  "sliceLast n (sliceLast n xs @ ys) = sliceLast n (xs @ ys)"
proof (cases "length xs \<le> n")
  case True
  then show ?thesis by (simp add: sliceLast_short)
next
  case False
  obtain k where k: "length xs = k + n" using False
    by (metis add.commute le_add_diff_inverse nat_le_linear)
  have "sliceLast n (sliceLast n xs @ ys) = drop (length ys) (drop k xs @ ys)"
    by (simp add: sliceLast_def k)
  also have "\<dots> = drop (k + length ys) (xs @ ys)"
    by (simp add: k add.commute)
  also have "\<dots> = sliceLast n (xs @ ys)"
    by (simp add: sliceLast_def k)
  finally show ?thesis .
qed

lemma pushVisionHistory_suffix:
  "pushVisionHistory entry history = sliceLast MAX_VISION_HISTORY (history @ [entry])"
  by (simp add: pushVisionHistory_def Let_def sliceLast_short)

lemma pushVisionHistory_length:
  "length history \<le> MAX_VISION_HISTORY \<Longrightarrow>
   length (pushVisionHistory entry history) \<le> MAX_VISION_HISTORY"
  by (simp add: pushVisionHistory_suffix length_sliceLast)

lemma pushVisionHistory_last: "last (pushVisionHistory entry history) = entry"
  by (simp add: pushVisionHistory_suffix sliceLast_def MAX_VISION_HISTORY_def)

lemma assessFrame_reads_currentStep:
  "currentStep b = currentStep a \<Longrightarrow> assessFrame parse text b = assessFrame parse text a"
  by (simp add: assessFrame_def)

lemma ingestFrame_currentStep [simp]:
  "currentStep (ingestFrame parse text t nowMs a) = currentStep a"
  by (simp add: ingestFrame_def analyzeFrame_def Let_def)

lemma ingestFrame_history:
  "visionHistory (ingestFrame parse text t nowMs a) =
     pushVisionHistory (historyEntry t (assessFrame parse text a)) (visionHistory a)"
  by (simp add: ingestFrame_def analyzeFrame_def Let_def)

lemma ingestFrames_currentStep [simp]:
  "currentStep (ingestFrames parse frames nowMs a) = currentStep a"
  unfolding ingestFrames_def
  by (induction frames arbitrary: a) (auto simp: case_prod_beta)

lemma ingestFrames_history:
  "length (visionHistory a) \<le> MAX_VISION_HISTORY \<Longrightarrow>
   visionHistory (ingestFrames parse frames nowMs a) =
     sliceLast MAX_VISION_HISTORY
       (visionHistory a @ map (\<lambda>(text, t). historyEntry t (assessFrame parse text a)) frames)"
proof (induction frames arbitrary: a)
  case Nil
  then show ?case by (simp add: ingestFrames_def sliceLast_short)
next
  case (Cons f fs)
  obtain raw t where f: "f = (raw, t)" by (cases f)
  let ?b = "ingestFrame parse raw t nowMs a"
  let ?e = "\<lambda>(text, t). historyEntry t (assessFrame parse text a)"
  have len: "length (visionHistory ?b) \<le> MAX_VISION_HISTORY"
    using Cons.prems by (simp add: ingestFrame_history pushVisionHistory_length)
  have same: "(\<lambda>(text, t). historyEntry t (assessFrame parse text ?b)) = ?e"
    by (simp add: assessFrame_reads_currentStep [of "ingestFrame parse raw t nowMs a" a])
  have "visionHistory (ingestFrames parse (f # fs) nowMs a) = visionHistory (ingestFrames parse fs nowMs ?b)"
    by (simp add: ingestFrames_def f)
  also have "\<dots> = sliceLast MAX_VISION_HISTORY (visionHistory ?b @ map ?e fs)"
    using Cons.IH [OF len] by (simp only: same)
  also have "\<dots> = sliceLast MAX_VISION_HISTORY ((visionHistory a @ [?e f]) @ map ?e fs)"
    by (simp only: ingestFrame_history pushVisionHistory_suffix sliceLast_append f prod.case)
  finally show ?case by simp
qed

lemma other_operations_keep_history:
  "visionHistory (snd (applyPanelStepGate cookingName requestedStep a)) = visionHistory a"
  "visionHistory (clearPanelTool a) = visionHistory a"
  "visionHistory resetSession = []"
  by (auto simp: applyPanelStepGate_def Let_def markCurrentStepCompleted_def clearPanelTool_def
                 resetSession_def split: option.splits)

text \<open>
  C7.  The history is empty after \<open>resetSession\<close>, and proposing a step or clearing
  the panel does not touch it.  Starting from a history of at most ten entries, one
  frame ingestion leaves the last ten entries of the old history followed by the new
  entry: the new entry is last, only entries from the front are dropped, and the
  length stays at most ten.  Any sequence of ingestions leaves the last ten of the old
  entries followed by the new ones, and eleven ingestions after a reset leave the
  entries of frames two to eleven in order, the first one evicted and the eleventh
  last.
\<close>

theorem vision_history_bounded_fifo:
  "visionHistory resetSession = [] \<and>
   visionHistory (snd (applyPanelStepGate cookingName requestedStep a)) = visionHistory a \<and>
   visionHistory (clearPanelTool a) = visionHistory a \<and>
   (length (visionHistory a) \<le> MAX_VISION_HISTORY \<longrightarrow>
     (visionHistory (ingestFrame parse text t nowMs a) =
        sliceLast 10 (visionHistory a @ [historyEntry t (assessFrame parse text a)]) \<and>
      last (visionHistory (ingestFrame parse text t nowMs a)) = historyEntry t (assessFrame parse text a) \<and>
      length (visionHistory (ingestFrame parse text t nowMs a)) \<le> 10 \<and>
      visionHistory (ingestFrames parse frames nowMs a) =
        sliceLast 10 (visionHistory a @ map (\<lambda>(text, t). historyEntry t (assessFrame parse text a)) frames) \<and>
      length (visionHistory (ingestFrames parse frames nowMs a)) \<le> 10)) \<and>
   (length frames = 11 \<longrightarrow>
      visionHistory (ingestFrames parse frames nowMs resetSession) =
        map (\<lambda>(text, t). historyEntry t (assessFrame parse text resetSession)) (tl frames) \<and>
      last (visionHistory (ingestFrames parse frames nowMs resetSession)) =
        (\<lambda>(text, t). historyEntry t (assessFrame parse text resetSession)) (frames ! 10))"
proof (intro conjI impI)
  show "visionHistory resetSession = []"
    by (rule other_operations_keep_history)
  show "visionHistory (snd (applyPanelStepGate cookingName requestedStep a)) = visionHistory a"
    by (rule other_operations_keep_history)
  show "visionHistory (clearPanelTool a) = visionHistory a"
    by (rule other_operations_keep_history)
next
  assume b: "length (visionHistory a) \<le> MAX_VISION_HISTORY"
  show "visionHistory (ingestFrame parse text t nowMs a) =
        sliceLast 10 (visionHistory a @ [historyEntry t (assessFrame parse text a)])"
    by (simp add: ingestFrame_history pushVisionHistory_suffix MAX_VISION_HISTORY_def)
  show "last (visionHistory (ingestFrame parse text t nowMs a)) = historyEntry t (assessFrame parse text a)"
    by (simp add: ingestFrame_history pushVisionHistory_last)
  show "length (visionHistory (ingestFrame parse text t nowMs a)) \<le> 10"
    using pushVisionHistory_length [OF b] by (simp add: ingestFrame_history MAX_VISION_HISTORY_def)
  show "visionHistory (ingestFrames parse frames nowMs a) =
        sliceLast 10 (visionHistory a @ map (\<lambda>(text, t). historyEntry t (assessFrame parse text a)) frames)"
    using ingestFrames_history [OF b] by (simp add: MAX_VISION_HISTORY_def)
  show "length (visionHistory (ingestFrames parse frames nowMs a)) \<le> 10"
    by (simp add: ingestFrames_history [OF b] length_sliceLast MAX_VISION_HISTORY_def)
next
  assume n: "length frames = 11"
  let ?e = "\<lambda>(text, t). historyEntry t (assessFrame parse text resetSession)"
  have h: "visionHistory (ingestFrames parse frames nowMs resetSession) = sliceLast 10 (map ?e frames)"
    using ingestFrames_history [of resetSession parse frames nowMs]
    by (simp add: resetSession_def MAX_VISION_HISTORY_def)
  show "visionHistory (ingestFrames parse frames nowMs resetSession) = map ?e (tl frames)"
    using n by (simp add: h sliceLast_def drop_Suc map_tl drop_map)
  moreover have ne: "tl frames \<noteq> []" "frames \<noteq> []"
    using n by (cases frames; auto)+
  moreover have "last (tl frames) = frames ! 10"
    using ne n by (cases frames) (auto simp: last_conv_nth)
  ultimately show "last (visionHistory (ingestFrames parse frames nowMs resetSession)) = ?e (frames ! 10)"
    by (simp add: last_map)
qed

theorem vision_history_bounded_fifo_witness:
  "length (visionHistory resetSession) \<le> MAX_VISION_HISTORY \<and>
   length [([], 1), ([], 2), ([], 3), ([], 4), ([], 5), ([], 6), ([], 7), ([], 8), ([], 9), ([], 10),
           ([], 11 :: int) :: string \<times> int] = 11 \<and>
   length (visionHistory (ingestFrames (\<lambda>_. None)
      [([], 1), ([], 2), ([], 3), ([], 4), ([], 5), ([], 6), ([], 7), ([], 8), ([], 9), ([], 10), ([], 11)]
      0 resetSession)) \<le> 10 \<and>
   map takenAtMs (visionHistory (ingestFrames (\<lambda>_. None)
      [([], 1), ([], 2), ([], 3), ([], 4), ([], 5), ([], 6), ([], 7), ([], 8), ([], 9), ([], 10), ([], 11)]
      0 resetSession)) = [2, 3, 4, 5, 6, 7, 8, 9, 10, 11] \<and>
   takenAtMs (last (visionHistory (ingestFrames (\<lambda>_. None)
      [([], 1), ([], 2), ([], 3), ([], 4), ([], 5), ([], 6), ([], 7), ([], 8), ([], 9), ([], 10), ([], 11)]
      0 resetSession))) = 11"
proof -
  have h: "length (visionHistory resetSession) \<le> MAX_VISION_HISTORY"
    by (simp add: resetSession_def)
  show ?thesis
    using h vision_history_bounded_fifo [where a = resetSession and parse = "\<lambda>_. None" and t = 1 and nowMs = 0
      and frames = "[([], 1), ([], 2), ([], 3), ([], 4), ([], 5), ([], 6), ([], 7), ([], 8), ([], 9), ([], 10), ([], 11)]"]
    by (simp add: historyEntry_def)
qed

subsection \<open>The speech gate\<close>

text \<open>
  C1 as stated fails: an urgent warning that repeats the last spoken text within the
  duplicate cooldown is dropped by the first branch of \<open>outputs.speak\<close>, which does
  not look at urgency.
\<close>

theorem urgent_duplicate_suppressed_counterexample:
  "isUrgentMessage ''Stop! The pan is on fire.'' \<and>
   speak defaultConfig silentAudio 31000 ''Stop! The pan is on fire.'' warnedServer =
     Inr (duplicateRecent, warnedServer)"
proof -
  have u: "isUrgentMessage ''Stop! The pan is on fire.''" by code_simp
  have t: "trim ''Stop! The pan is on fire.'' = ''Stop! The pan is on fire.''" by code_simp
  have k: "speechTextKey ''Stop! The pan is on fire.'' = ''stop! the pan is on fire.''" by code_simp
  show ?thesis
    by (simp add: u speak_def Let_def t k warnedServer_def pancakeServer_def defaultConfig_def)
qed

text \<open>
  C1, amended.  For a message that matches the urgency keywords (and is trimmed, as
  \<open>readStringArg\<close> returns it), the step gate never blocks it, and \<open>outputs.speak\<close>
  never drops it for a pending unanswered question or for the minimum gap between
  questions.  It is dropped exactly in three cases, tried in this order: it repeats
  the last spoken text within the duplicate cooldown; it is a question asked while an
  answer is pending, within the question-repeat cooldown; it is a routine preference
  question.  Otherwise it reaches the voice: when the synthesis succeeds the speech
  event is broadcast last and the return is \<open>spoken\<close>.
\<close>

theorem urgent_message_gate:
  "trim message = message \<and> isUrgentMessage message \<longrightarrow>
   getBlockedSpeakReason nowGate message a = None \<and>
   (let duplicate = (speechTextKey message = lastSpokenTextKey sv \<and>
                      real_of_int (now - lastSpokenAtMs sv) < speechRepeatCooldownMs cfg);
        repeated = (isQuestion message \<and> waitingForUserAnswer sv \<and>
                      real_of_int (now - lastQuestionAtMs sv) < questionRepeatCooldownMs cfg);
        preference = (isQuestion message \<and> asksPreference message)
    in (duplicate \<longrightarrow> speak cfg synthesize now message sv = Inr (duplicateRecent, sv)) \<and>
       (\<not> duplicate \<and> repeated \<longrightarrow> speak cfg synthesize now message sv = Inr (questionRepeatTooSoon, sv)) \<and>
       (\<not> duplicate \<and> \<not> repeated \<and> preference \<longrightarrow>
          speak cfg synthesize now message sv = Inr (routinePreferenceQuestion, sv)) \<and>
       (\<not> duplicate \<and> \<not> repeated \<and> \<not> preference \<longrightarrow>
          (\<forall>audio. synthesize message = Inr audio \<longrightarrow>
             (\<exists>sv1. speak cfg synthesize now message sv = Inr (spoken, sv1) \<and>
                    broadcasts sv1 = broadcasts sv @ [speechEvent message audio] \<and>
                    lastSpokenTextKey sv1 = speechTextKey message \<and> lastSpokenAtMs sv1 = now))))"
proof (intro impI conjI)
  assume h: "trim message = message \<and> isUrgentMessage message"
  show "getBlockedSpeakReason nowGate message a = None"
    using h by (simp add: getBlockedSpeakReason_def)
  have ne: "message \<noteq> []"
    using h by (auto simp: isUrgentMessage_def containsWord_def regexTest_def anyWordHere_def
                          wordHere_def urgentWords_def)
  show "let duplicate = (speechTextKey message = lastSpokenTextKey sv \<and>
                      real_of_int (now - lastSpokenAtMs sv) < speechRepeatCooldownMs cfg);
        repeated = (isQuestion message \<and> waitingForUserAnswer sv \<and>
                      real_of_int (now - lastQuestionAtMs sv) < questionRepeatCooldownMs cfg);
        preference = (isQuestion message \<and> asksPreference message)
    in (duplicate \<longrightarrow> speak cfg synthesize now message sv = Inr (duplicateRecent, sv)) \<and>
       (\<not> duplicate \<and> repeated \<longrightarrow> speak cfg synthesize now message sv = Inr (questionRepeatTooSoon, sv)) \<and>
       (\<not> duplicate \<and> \<not> repeated \<and> preference \<longrightarrow>
          speak cfg synthesize now message sv = Inr (routinePreferenceQuestion, sv)) \<and>
       (\<not> duplicate \<and> \<not> repeated \<and> \<not> preference \<longrightarrow>
          (\<forall>audio. synthesize message = Inr audio \<longrightarrow>
             (\<exists>sv1. speak cfg synthesize now message sv = Inr (spoken, sv1) \<and>
                    broadcasts sv1 = broadcasts sv @ [speechEvent message audio] \<and>
                    lastSpokenTextKey sv1 = speechTextKey message \<and> lastSpokenAtMs sv1 = now)))"
    using h ne by (auto simp: speak_def Let_def)
qed

theorem urgent_message_gate_witness:
  "trim ''Stop! The pan is on fire.'' = ''Stop! The pan is on fire.'' \<and>
   isUrgentMessage ''Stop! The pan is on fire.'' \<and>
   waitingForUserAnswer askingServer \<and>
   \<not> frameAllowsStepAdvance eggsLocked \<and>
   getBlockedSpeakReason 5000 ''Stop! The pan is on fire.'' eggsLocked = None \<and>
   (\<exists>sv1. speak defaultConfig silentAudio 5000 ''Stop! The pan is on fire.'' askingServer = Inr (spoken, sv1) \<and>
          broadcasts sv1 = [speechEvent ''Stop! The pan is on fire.'' \<lparr>mimeType = ''audio/mpeg'', base64 = []\<rparr>])"
proof -
  have u: "isUrgentMessage ''Stop! The pan is on fire.''" by code_simp
  have t: "trim ''Stop! The pan is on fire.'' = ''Stop! The pan is on fire.''" by code_simp
  have k: "speechTextKey ''Stop! The pan is on fire.'' = ''stop! the pan is on fire.''" by code_simp
  have q: "\<not> isQuestion ''Stop! The pan is on fire.''" by code_simp
  have s: "waitingForUserAnswer askingServer" "broadcasts askingServer = []"
    "lastSpokenTextKey askingServer = ''is the pan hot?''"
    by (simp_all add: askingServer_def pancakeServer_def)
  have e: "\<not> frameAllowsStepAdvance eggsLocked" by (simp add: eggsLocked_def)
  show ?thesis
    using urgent_message_gate
            [where message = "''Stop! The pan is on fire.''" and nowGate = 5000 and a = eggsLocked
               and sv = askingServer and now = 5000 and cfg = defaultConfig and synthesize = silentAudio]
          u t k q s e
    by (auto simp: silentAudio_def)
qed

subsection \<open>Completing a recipe\<close>

text \<open>
  C2 as stated fails: when the recipe was already saved in this session and the dish
  matches it, \<open>completeRecipe\<close> answers \<open>{ok: true, saved: false, reason:
  "already_saved_for_session"}\<close>, not \<open>{ok: false, saved: false, error}\<close>.
\<close>

theorem complete_recipe_already_saved_counterexample:
  "recipeStoredForSession (pancakeServer\<lparr>recipeStoredForSession := True\<rparr>) \<and>
   completeRecipe (\<lambda>a b. 0) ''2026-01-01T00:00:00.000Z'' ''Pancakes'' ''Mix, rest, fry.''
       (pancakeServer\<lparr>recipeStoredForSession := True\<rparr>) =
     Inr (\<lparr>ok = True, saved = False, error = None, reason = Some ''already_saved_for_session'',
           savedRecipe = None\<rparr>,
          pancakeServer\<lparr>recipeStoredForSession := True\<rparr>)"
  by code_simp

text \<open>
  C2, amended.  With no active session, with a dish whose key differs from the active
  dish key, or without the user's confirmation when nothing was saved yet, the result
  is \<open>{ok: false, saved: false, error}\<close> and the server is unchanged.  When the recipe
  was already saved in this session, the server is unchanged and nothing is saved, but
  for a well-formed payload of the active dish the result is \<open>{ok: true, saved: false,
  reason: "already_saved_for_session"}\<close>.
\<close>

theorem complete_recipe_precondition_violations:
  "(activeDishKey sv = [] \<or> normalizeDishKey (trim payloadDish) \<noteq> activeDishKey sv \<or>
      (\<not> recipeStoredForSession sv \<and> \<not> completionConfirmedForSession sv) \<longrightarrow>
      (\<exists>msg. completeRecipe compare now payloadDish payloadRecipe sv = Inr (failure msg, sv))) \<and>
   (recipeStoredForSession sv \<longrightarrow>
      (\<exists>res. completeRecipe compare now payloadDish payloadRecipe sv = Inr (res, sv) \<and>
             saved res = False \<and> savedRecipe res = None)) \<and>
   (recipeStoredForSession sv \<and> trim payloadDish \<noteq> [] \<and> trim payloadRecipe \<noteq> [] \<and>
      activeDishKey sv \<noteq> [] \<and> normalizeDishKey (trim payloadDish) = activeDishKey sv \<longrightarrow>
      completeRecipe compare now payloadDish payloadRecipe sv =
        Inr (\<lparr>ok = True, saved = False, error = None, reason = Some ''already_saved_for_session'',
              savedRecipe = None\<rparr>, sv))"
proof (intro conjI impI)
  assume "activeDishKey sv = [] \<or> normalizeDishKey (trim payloadDish) \<noteq> activeDishKey sv \<or>
      (\<not> recipeStoredForSession sv \<and> \<not> completionConfirmedForSession sv)"
  then show "\<exists>msg. completeRecipe compare now payloadDish payloadRecipe sv = Inr (failure msg, sv)"
    by (auto simp: completeRecipe_def Let_def)
next
  assume "recipeStoredForSession sv"
  then show "\<exists>res. completeRecipe compare now payloadDish payloadRecipe sv = Inr (res, sv) \<and>
             saved res = False \<and> savedRecipe res = None"
    by (auto simp: completeRecipe_def Let_def failure_def)
next
  assume "recipeStoredForSession sv \<and> trim payloadDish \<noteq> [] \<and> trim payloadRecipe \<noteq> [] \<and>
      activeDishKey sv \<noteq> [] \<and> normalizeDishKey (trim payloadDish) = activeDishKey sv"
  then show "completeRecipe compare now payloadDish payloadRecipe sv =
        Inr (\<lparr>ok = True, saved = False, error = None, reason = Some ''already_saved_for_session'',
              savedRecipe = None\<rparr>, sv)"
    by (auto simp: completeRecipe_def Let_def)
qed

theorem complete_recipe_precondition_violations_witness:
  "normalizeDishKey (trim ''Waffles'') = ''waffles'' \<and> activeDishKey pancakeServer = ''pancakes'' \<and>
   completeRecipe (\<lambda>a b. 0) ''2026-01-01T00:00:00.000Z'' ''Waffles'' ''Pour and bake.'' pancakeServer =
     Inr (failure ''Dish \"Waffles\" does not match active session dish.'', pancakeServer) \<and>
   completionConfirmedForSession pancakeServer = False \<and>
   completeRecipe (\<lambda>a b. 0) ''2026-01-01T00:00:00.000Z'' ''Pancakes'' ''Mix, rest, fry.'' pancakeServer =
     Inr (failure ''Recipe can only be saved after user confirms the dish is finished.'', pancakeServer) \<and>
   recipeStoredForSession (pancakeServer\<lparr>recipeStoredForSession := True\<rparr>) \<and>
   completeRecipe (\<lambda>a b. 0) ''2026-01-01T00:00:00.000Z'' ''Pancakes'' ''Mix, rest, fry.''
       (pancakeServer\<lparr>recipeStoredForSession := True\<rparr>) =
     Inr (\<lparr>ok = True, saved = False, error = None, reason = Some ''already_saved_for_session'',
           savedRecipe = None\<rparr>,
          pancakeServer\<lparr>recipeStoredForSession := True\<rparr>)"
proof -
  have k1: "normalizeDishKey (trim ''Waffles'') = ''waffles''" by code_simp
  have k2: "normalizeDishKey (trim ''Pancakes'') = ''pancakes''" by code_simp
  have t: "trim ''Pancakes'' \<noteq> []" "trim ''Mix, rest, fry.'' \<noteq> []" by code_simp+
  have a: "activeDishKey pancakeServer = ''pancakes''"
    "completionConfirmedForSession pancakeServer = False"
    "recipeStoredForSession pancakeServer = False"
    by (simp_all add: pancakeServer_def)
  have m1: "completeRecipe (\<lambda>a b. 0) ''2026-01-01T00:00:00.000Z'' ''Waffles'' ''Pour and bake.'' pancakeServer =
     Inr (failure ''Dish \"Waffles\" does not match active session dish.'', pancakeServer)"
    by code_simp
  have m2: "completeRecipe (\<lambda>a b. 0) ''2026-01-01T00:00:00.000Z'' ''Pancakes'' ''Mix, rest, fry.'' pancakeServer =
     Inr (failure ''Recipe can only be saved after user confirms the dish is finished.'', pancakeServer)"
    by code_simp
  show ?thesis
    using complete_recipe_precondition_violations
            [where sv = "pancakeServer\<lparr>recipeStoredForSession := True\<rparr>" and payloadDish = "''Pancakes''"
               and payloadRecipe = "''Mix, rest, fry.''" and compare = "\<lambda>a b. 0"
               and now = "''2026-01-01T00:00:00.000Z''"]
          complete_recipe_precondition_violations
            [where sv = pancakeServer and payloadDish = "''Waffles''"
               and payloadRecipe = "''Pour and bake.''" and compare = "\<lambda>a b. 0"
               and now = "''2026-01-01T00:00:00.000Z''"]
          k1 k2 t a m1 m2
    by simp
qed

subsection \<open>Completion confirmed by the user\<close>

lemma dropWhile_append_keep:
  "ys \<noteq> [] \<Longrightarrow> \<not> P (hd ys) \<Longrightarrow> dropWhile P (xs @ ys) = dropWhile P xs @ ys"
  by (induction xs) (auto simp: dropWhile_eq_self_iff)

lemma trim_around:
  assumes "m \<noteq> []" "\<not> isSpace (hd m)" "\<not> isSpace (last m)"
  shows "trim (pre @ m @ post) = dropWhile isSpace pre @ m @ rev (dropWhile isSpace (rev post))"
proof -
  have a: "dropWhile isSpace (pre @ m @ post) = dropWhile isSpace pre @ m @ post"
    using assms(1,2) dropWhile_append_keep [of "m @ post" isSpace pre] by simp
  have b: "dropWhile isSpace (rev post @ rev m @ rev (dropWhile isSpace pre)) =
           dropWhile isSpace (rev post) @ rev m @ rev (dropWhile isSpace pre)"
    using assms(1,3) dropWhile_append_keep [of "rev m @ rev (dropWhile isSpace pre)" isSpace "rev post"]
    by (simp add: hd_rev)
  show ?thesis by (simp add: trim_def a b)
qed

lemma last_dropWhile_keep: "dropWhile P xs \<noteq> [] \<Longrightarrow> last (dropWhile P xs) = last xs"
  by (induction xs) (auto split: if_splits)

lemma isWordChar_toLowerChar [simp]: "isWordChar (toLowerChar c) = isWordChar c"
proof -
  have r: "of_char c < (256::nat)" by simp
  show ?thesis
    using r
    by (simp add: toLowerChar_def Let_def isWordChar_def isLowerAZ_def isUpperAZ_def isDigit_def
                  of_char_eq_iff [symmetric, where 'a = nat] del: of_char_eq_iff)
qed

lemma isSpace_toLowerChar [simp]: "isSpace (toLowerChar c) = isSpace c"
proof -
  have r: "of_char c < (256::nat)" by simp
  show ?thesis
    using r by (simp add: toLowerChar_def Let_def isSpace_def)
qed

lemma searchFrom_append: "m (lastOpt prev pre) rest \<Longrightarrow> searchFrom m prev (pre @ rest)"
proof (induction pre arbitrary: prev)
  case Nil
  then show ?case by (cases rest) (simp_all add: lastOpt_def)
next
  case (Cons c cs)
  have "lastOpt (Some c) cs = lastOpt prev (c # cs)" by (simp add: lastOpt_def)
  then show ?case using Cons by simp
qed

lemma startsWithCI_append_lower: "startsWithCI (map asciiLower w @ r) (map asciiLower w)"
  by (induction w) (simp_all add: asciiLower_def isUpperAZ_def Let_def)

lemma startsWithCI_self: "startsWithCI (w @ r) w"
  by (induction w) simp_all

lemma headOpt_append: "w \<noteq> [] \<Longrightarrow> headOpt (w @ r) = Some (hd w)"
  by (cases w) (simp_all add: headOpt_def)

lemma lastOpt_nonempty: "w \<noteq> [] \<Longrightarrow> lastOpt p w = Some (last w)"
  by (simp add: lastOpt_def)

text \<open>The shape of the negation and completion words.\<close>

lemma negationWords_shape:
  "n \<in> set negationWords \<Longrightarrow> n \<noteq> [] \<and> isWordChar (hd n) \<and> \<not> isSpace (hd n)"
  by (auto simp: negationWords_def isWordChar_def isLowerAZ_def isSpace_def Let_def)

lemma completionWords_shape:
  "w \<in> set completionWords \<Longrightarrow>
     w \<noteq> [] \<and> isWordChar (last w) \<and> \<not> isSpace (last w) \<and> \<not> isSpace (hd w)"
  by (auto simp: completionWords_def isWordChar_def isLowerAZ_def isSpace_def Let_def)

lemma negatedCompletionHere_at:
  assumes n: "n \<in> set negationWords" and w: "w \<in> set completionWords"
    and ws: "ws \<noteq> []" "\<forall>c\<in>set ws. isSpace c"
    and before: "\<not> isWordOpt prev"
    and after: "post = [] \<or> \<not> isWordChar (hd post)"
  shows "negatedCompletionHere prev (n @ ws @ w @ post)"
proof -
  note ns = negationWords_shape [OF n]
  note cs = completionWords_shape [OF w]
  have b1: "wordBoundary prev (headOpt (n @ ws @ w @ post))"
    using ns before by (simp add: headOpt_append wordBoundary_def isWordOpt_def)
  have tw: "takeWhile isSpace (ws @ w @ post) = ws"
    using ws(2) cs by (cases w) (simp_all add: takeWhile_append2 takeWhile_tail)
  have dw: "dropWhile isSpace (ws @ w @ post) = w @ post"
    using ws(2) cs by (cases w) (simp_all add: dropWhile_append2)
  have b2: "wordBoundary (lastOpt (lastOpt (lastOpt prev n) ws) (take (length w) (w @ post)))
              (headOpt (drop (length w) (w @ post)))"
    using cs after by (cases post) (simp_all add: lastOpt_nonempty wordBoundary_def isWordOpt_def headOpt_def)
  have inner: "list_ex (\<lambda>v. startsWithCI (w @ post) v \<and>
                 wordBoundary (lastOpt (lastOpt (lastOpt prev n) ws) (take (length v) (w @ post)))
                              (headOpt (drop (length v) (w @ post)))) completionWords"
    unfolding list_ex_iff using w b2 startsWithCI_self [of w post] by blast
  have sp: "spacesThen (\<lambda>p r. list_ex (\<lambda>v. startsWithCI r v \<and>
                        wordBoundary (lastOpt p (take (length v) r)) (headOpt (drop (length v) r)))
                      completionWords)
                     (lastOpt prev (take (length n) (n @ ws @ w @ post))) (drop (length n) (n @ ws @ w @ post))"
    using ws(1) inner by (simp add: spacesThen_def Let_def tw dw)
  show ?thesis
    unfolding negatedCompletionHere_def
    by (rule iffD2 [OF list_ex_iff]) (use n b1 startsWithCI_self [of n "ws @ w @ post"] sp in blast)
qed


lemma phrase_ends:
  assumes "negatedCompletionPhrase pre neg ws fin post"
  shows "neg \<noteq> []" "\<not> isSpace (hd neg)" "fin \<noteq> []" "\<not> isSpace (last fin)"
proof -
  have n: "toLowerCase neg \<in> set negationWords" and c: "toLowerCase fin \<in> set completionWords"
    using assms by (simp_all add: negatedCompletionPhrase_def)
  note ns = negationWords_shape [OF n]
  note cs = completionWords_shape [OF c]
  show "neg \<noteq> []" using ns by (auto simp: toLowerCase_def)
  then show "\<not> isSpace (hd neg)" using ns by (simp add: toLowerCase_def hd_map)
  show "fin \<noteq> []" using cs by (auto simp: toLowerCase_def)
  then show "\<not> isSpace (last fin)" using cs by (simp add: toLowerCase_def last_map)
qed

lemma phrase_trim:
  assumes "negatedCompletionPhrase pre neg ws fin post"
  shows "trim (pre @ neg @ ws @ fin @ post) =
           dropWhile isSpace pre @ neg @ ws @ fin @ rev (dropWhile isSpace (rev post)) \<and>
         negatedCompletionPhrase (dropWhile isSpace pre) neg ws fin (rev (dropWhile isSpace (rev post)))"
proof -
  note e = phrase_ends [OF assms]
  have "trim (pre @ (neg @ ws @ fin) @ post) =
          dropWhile isSpace pre @ (neg @ ws @ fin) @ rev (dropWhile isSpace (rev post))"
    using e by (intro trim_around) simp_all
  moreover have "dropWhile isSpace pre = [] \<or> \<not> isWordChar (last (dropWhile isSpace pre))"
  proof (cases "dropWhile isSpace pre = []")
    case True
    then show ?thesis by simp
  next
    case False
    then have "pre \<noteq> []" by auto
    then show ?thesis
      using assms last_dropWhile_keep [OF False] by (simp add: negatedCompletionPhrase_def)
  qed
  moreover have "rev (dropWhile isSpace (rev post)) = [] \<or>
                 \<not> isWordChar (hd (rev (dropWhile isSpace (rev post))))"
  proof (cases "dropWhile isSpace (rev post) = []")
    case True
    then show ?thesis by simp
  next
    case False
    then have p: "post \<noteq> []" by auto
    have "hd (rev (dropWhile isSpace (rev post))) = last (dropWhile isSpace (rev post))"
      using False by (simp add: hd_rev)
    also have "\<dots> = last (rev post)" by (rule last_dropWhile_keep [OF False])
    also have "\<dots> = hd post" using p by (simp add: last_rev)
    finally show ?thesis using assms p by (simp add: negatedCompletionPhrase_def)
  qed
  ultimately show ?thesis
    using assms by (simp add: negatedCompletionPhrase_def)
qed

lemma phrase_found:
  assumes "negatedCompletionPhrase pre neg ws fin post"
  shows "regexTest negatedCompletionHere (toLowerCase (pre @ neg @ ws @ fin @ post))"
proof -
  have n: "toLowerCase neg \<in> set negationWords" and c: "toLowerCase fin \<in> set completionWords"
    and w: "ws \<noteq> []" "list_all isSpace ws"
    and b: "pre = [] \<or> \<not> isWordChar (last pre)" and a: "post = [] \<or> \<not> isWordChar (hd post)"
    using assms by (simp_all add: negatedCompletionPhrase_def)
  have w': "toLowerCase ws \<noteq> []" "\<forall>c\<in>set (toLowerCase ws). isSpace c"
    using w by (auto simp: toLowerCase_def list_all_iff)
  have before: "\<not> isWordOpt (lastOpt None (toLowerCase pre))"
    using b by (cases "pre = []") (auto simp: lastOpt_def isWordOpt_def toLowerCase_def last_map)
  have after: "toLowerCase post = [] \<or> \<not> isWordChar (hd (toLowerCase post))"
    using a by (cases "post = []") (auto simp: toLowerCase_def hd_map)
  have "negatedCompletionHere (lastOpt None (toLowerCase pre))
          (toLowerCase neg @ toLowerCase ws @ toLowerCase fin @ toLowerCase post)"
    by (rule negatedCompletionHere_at [OF n c w' before after])
  then have "searchFrom negatedCompletionHere None
          (toLowerCase pre @ toLowerCase neg @ toLowerCase ws @ toLowerCase fin @ toLowerCase post)"
    by (rule searchFrom_append)
  then show ?thesis by (simp add: regexTest_def toLowerCase_def)
qed

lemma phrase_not_confirmed:
  assumes "negatedCompletionPhrase pre neg ws fin post"
  shows "userConfirmedCompletion (pre @ neg @ ws @ fin @ post) waiting lastQuestion = False"
proof -
  note t = phrase_trim [OF assms]
  have "regexTest negatedCompletionHere (toLowerCase (trim (pre @ neg @ ws @ fin @ post)))"
    using t phrase_found [of "dropWhile isSpace pre" neg ws fin "rev (dropWhile isSpace (rev post))"]
    by simp
  then show ?thesis by (simp add: userConfirmedCompletion_def Let_def)
qed

lemma phrase_route:
  assumes "negatedCompletionPhrase pre neg ws fin post"
  shows "userMessageRoute (pre @ neg @ ws @ fin @ post) sv =
           Some (sv\<lparr>waitingForUserAnswer := False, lastQuestionText := []\<rparr>)"
proof -
  note t = phrase_trim [OF assms]
  note e = phrase_ends [OF assms]
  have ne: "trim (pre @ neg @ ws @ fin @ post) \<noteq> []" using t e by simp
  have "userConfirmedCompletion (trim (pre @ neg @ ws @ fin @ post)) (waitingForUserAnswer sv) (lastQuestionText sv) = False"
    using t phrase_not_confirmed [of "dropWhile isSpace pre" neg ws fin "rev (dropWhile isSpace (rev post))"]
    by simp
  then show ?thesis using ne by (simp add: userMessageRoute_def Let_def)
qed

text \<open>
  C10.  A message that holds a negated completion phrase (one of \<open>not\<close>, \<open>isn't\<close>,
  \<open>isnt\<close>, \<open>don't\<close>, \<open>dont\<close>, then white space, then one of \<open>done\<close>, \<open>finished\<close>,
  \<open>complete\<close>, \<open>completed\<close>, as whole words in any case) is never taken as a
  confirmation, whatever stands before and after the phrase, whether an answer is
  awaited or not and whatever the last question was; the handler of the message resets
  the pending question and changes nothing else, so the completion flag keeps its
  value.
\<close>

theorem negated_completion_not_confirmed:
  "negatedCompletionPhrase pre neg ws fin post \<longrightarrow>
     userConfirmedCompletion (pre @ neg @ ws @ fin @ post) waitingForAnswer lastQuestion = False \<and>
     userMessageRoute (pre @ neg @ ws @ fin @ post) sv =
       Some (sv\<lparr>waitingForUserAnswer := False, lastQuestionText := []\<rparr>)"
  using phrase_not_confirmed phrase_route by blast

theorem negated_completion_not_confirmed_witness:
  "negatedCompletionPhrase ''All done? No, we are '' ''NOT'' ''  '' ''finished'' '' yet, almost done.'' \<and>
   containsWord True affirmativeCompletionWords
     (toLowerCase (trim ''All done? No, we are NOT  finished yet, almost done.'')) \<and>
   userConfirmedCompletion ''All done? No, we are NOT  finished yet, almost done.'' True ''Are you finished?''
     = False \<and>
   completionConfirmedForSession askingServer = False \<and>
   userMessageRoute ''All done? No, we are NOT  finished yet, almost done.'' askingServer =
     Some (askingServer\<lparr>waitingForUserAnswer := False, lastQuestionText := []\<rparr>)"
proof -
  have p: "negatedCompletionPhrase ''All done? No, we are '' ''NOT'' ''  '' ''finished'' '' yet, almost done.''"
    by code_simp
  have a: "containsWord True affirmativeCompletionWords
     (toLowerCase (trim ''All done? No, we are NOT  finished yet, almost done.''))"
    by code_simp
  have c: "completionConfirmedForSession askingServer = False"
    by (simp add: askingServer_def pancakeServer_def)
  show ?thesis
    using negated_completion_not_confirmed
            [where pre = "''All done? No, we are ''" and neg = "''NOT''" and ws = "''  ''"
               and fin = "''finished''" and post = "'' yet, almost done.''"
               and waitingForAnswer = True and lastQuestion = "''Are you finished?''"
               and sv = askingServer]
          p a c
    by simp
qed

subsection \<open>Frame assessment\<close>

lemma trimToWordLimit_words:
  "trimToWordLimit s n =
     (let ws = splitWords isSpace s
      in if length ws \<le> n then joinWith '' '' ws else joinWith '' '' (take n ws) @ ''...'')"
  by (cases "splitWords isSpace s") (auto simp: trimToWordLimit_def words_of_collapsed Let_def)

lemma trimToWordLimit_count:
  assumes "1 \<le> n"
  shows "length (splitWords isSpace (trimToWordLimit s n)) \<le> n"
proof -
  let ?ws = "splitWords isSpace s"
  have p: "\<forall>w\<in>set ?ws. w \<noteq> [] \<and> (\<forall>c\<in>set w. \<not> isSpace c)"
    using splitWords_pieces by blast
  show ?thesis
  proof (cases "length ?ws \<le> n")
    case True
    then show ?thesis
      using splitWords_joinWith [OF p, of "CHR '' ''"] by (simp add: trimToWordLimit_words)
  next
    case False
    have q: "\<forall>w\<in>set (take n ?ws). w \<noteq> [] \<and> (\<forall>c\<in>set w. \<not> isSpace c)"
      using p by (meson in_set_takeD)
    have ne: "take n ?ws \<noteq> []" using False assms by auto
    have d: "\<forall>c\<in>set ''...''. \<not> isSpace c" by (simp add: isSpace_def)
    have "length (splitWords isSpace (joinWith '' '' (take n ?ws) @ ''...'')) = length (take n ?ws)"
      using splitWords_joinWith_suffix [OF q _ ne d, of "CHR '' ''"] by simp
    then show ?thesis using False by (simp add: trimToWordLimit_words)
  qed
qed

text \<open>
  C5 as stated fails for the status: the code reads \<open>parsed.step_status ?? parsed.stepStatus\<close>,
  so with a step locked an answer whose \<open>step_status\<close> is absent or \<open>null\<close> (outside the
  four values) and whose \<open>stepStatus\<close> is \<open>complete\<close> gives \<open>complete\<close>, not \<open>unclear\<close>.
\<close>

theorem step_status_alias_counterexample:
  "truthy (currentStep eggsLocked) \<and>
   map_of (parseFrameAssessment sampleParse
             ''{\"observation\":\"Eggs on the bench.\",\"stepStatus\":\"complete\",\"confidence\":0.9}'')
          ''step_status'' = None \<and>
   stepStatus (assessFrame sampleParse
             ''{\"observation\":\"Eggs on the bench.\",\"stepStatus\":\"complete\",\"confidence\":0.9}''
             eggsLocked) = complete \<and>
   map_of (parseFrameAssessment sampleParse ''{\"step_status\":null,\"stepStatus\":\"complete\"}'')
          ''step_status'' = Some JNull \<and>
   stepStatus (assessFrame sampleParse ''{\"step_status\":null,\"stepStatus\":\"complete\"}'' eggsLocked) = complete"
proof -
  have p1: "parseFrameAssessment sampleParse
             ''{\"observation\":\"Eggs on the bench.\",\"stepStatus\":\"complete\",\"confidence\":0.9}''
           = [(''observation'', JStr ''Eggs on the bench.''), (''stepStatus'', JStr ''complete''),
              (''confidence'', JNum (Finite 0.9))]"
    by (simp add: parseFrameAssessment_def tryParseJsonObject_def tryParseUnknownJson_def sampleParse_def)
  have p2: "parseFrameAssessment sampleParse ''{\"step_status\":null,\"stepStatus\":\"complete\"}''
           = [(''step_status'', JNull), (''stepStatus'', JStr ''complete'')]"
    by (simp add: parseFrameAssessment_def tryParseJsonObject_def tryParseUnknownJson_def sampleParse_def)
  show ?thesis
    by (simp add: p1 p2 assessFrame_def Let_def nullish_def coerceStepStatus_def truthy_def
                  eggsLocked_def resetSession_def)
qed

lemma coerceConfidence_range: "0 \<le> coerceConfidence v \<and> coerceConfidence v \<le> 1"
  by (auto simp: coerceConfidence_def split: option.splits json.splits jsnumber.splits)

lemma statusName_inject: "statusName s = statusName s' \<Longrightarrow> s = s'"
  by (cases s; cases s') (simp_all add: statusName_def)

lemma coerceStepStatus_named: "coerceStepStatus (Some (JStr (statusName s))) d = s"
  by (cases s) (simp_all add: coerceStepStatus_def statusName_def)

lemma coerceStepStatus_other:
  "\<forall>s. v \<noteq> Some (JStr (statusName s)) \<Longrightarrow> coerceStepStatus v d = d"
proof -
  assume h: "\<forall>s. v \<noteq> Some (JStr (statusName s))"
  have "v \<noteq> Some (JStr ''not_started'')" "v \<noteq> Some (JStr ''in_progress'')"
       "v \<noteq> Some (JStr ''complete'')" "v \<noteq> Some (JStr ''unclear'')"
    using h [rule_format, of not_started] h [rule_format, of in_progress]
          h [rule_format, of complete] h [rule_format, of unclear]
    by (simp_all add: statusName_def)
  then show ?thesis
    by (auto simp: coerceStepStatus_def split: option.splits json.splits)
qed

lemma fallback_texts:
  "trimToWordLimit ''No clear visual change.'' 14 = ''No clear visual change.''"
  "trimToWordLimit ''Insufficient visual evidence.'' 18 = ''Insufficient visual evidence.''"
  by code_simp+

text \<open>
  C5, amended.  \<open>assessFrame\<close> is a total function of the answer text, for any
  behaviour of \<open>JSON.parse\<close>, which may throw on every text: an answer that cannot be
  parsed gives the four defaults.  The status is read from \<open>step_status\<close>, or from
  \<open>stepStatus\<close> when \<open>step_status\<close> is \<open>null\<close> or absent; one of the four names gives
  that status and anything else the default, \<open>unclear\<close> with a step locked and
  \<open>not_started\<close> without.  The confidence lies in [0,1]: a finite number is clamped,
  anything that is not a number (or is NaN) gives 0.5.  Observation and reason are their
  fallback texts when the field is not a string; a string is cut to its first 14 (18)
  white-space separated words joined by single blanks, with \<open>...\<close> appended when words
  were cut off, so the result never has more than 14 (18) words.
\<close>

theorem frame_assessment_coercion:
  "(let parsed = parseFrameAssessment parse outputText;
        r = assessFrame parse outputText a;
        status = nullish (map_of parsed ''step_status'') (map_of parsed ''stepStatus'');
        fallback = (if truthy (currentStep a) then unclear else not_started)
    in (\<forall>s. status = Some (JStr (statusName s)) \<longrightarrow> stepStatus r = s) \<and>
       ((\<forall>s. status \<noteq> Some (JStr (statusName s))) \<longrightarrow> stepStatus r = fallback) \<and>
       0 \<le> confidence r \<and> confidence r \<le> 1 \<and>
       (\<forall>x. map_of parsed ''confidence'' = Some (JNum (Finite x)) \<longrightarrow> confidence r = max 0 (min 1 x)) \<and>
       ((\<forall>x. map_of parsed ''confidence'' \<noteq> Some (JNum x)) \<or> map_of parsed ''confidence'' = Some (JNum NaN)
          \<longrightarrow> confidence r = 0.5) \<and>
       ((\<forall>s. map_of parsed ''observation'' \<noteq> Some (JStr s)) \<longrightarrow> observation r = ''No clear visual change.'') \<and>
       (\<forall>s. map_of parsed ''observation'' = Some (JStr s) \<longrightarrow>
            observation r = (let ws = splitWords isSpace s
                             in if length ws \<le> 14 then joinWith '' '' ws
                                else joinWith '' '' (take 14 ws) @ ''...'')) \<and>
       length (splitWords isSpace (observation r)) \<le> 14 \<and>
       ((\<forall>s. map_of parsed ''reason'' \<noteq> Some (JStr s)) \<longrightarrow> reason r = ''Insufficient visual evidence.'') \<and>
       (\<forall>s. map_of parsed ''reason'' = Some (JStr s) \<longrightarrow>
            reason r = (let ws = splitWords isSpace s
                        in if length ws \<le> 18 then joinWith '' '' ws
                           else joinWith '' '' (take 18 ws) @ ''...'')) \<and>
       length (splitWords isSpace (reason r)) \<le> 18 \<and>
       (parse outputText = None \<and> (\<forall>m. matchBraces outputText = Some m \<longrightarrow> parse m = None) \<longrightarrow>
          r = \<lparr>observation = ''No clear visual change.'', stepStatus = fallback, confidence = 0.5,
               reason = ''Insufficient visual evidence.''\<rparr>))"
proof -
  let ?parsed = "parseFrameAssessment parse outputText"
  let ?r = "assessFrame parse outputText a"
  let ?status = "nullish (map_of ?parsed ''step_status'') (map_of ?parsed ''stepStatus'')"
  let ?fallback = "if truthy (currentStep a) then unclear else not_started"
  have st: "stepStatus ?r = coerceStepStatus ?status ?fallback"
    by (simp add: assessFrame_def Let_def)
  have cf: "confidence ?r = coerceConfidence (map_of ?parsed ''confidence'')"
    by (simp add: assessFrame_def Let_def)
  have ob: "observation ?r = trimToWordLimit (stringOr (map_of ?parsed ''observation'') ''No clear visual change.'') 14"
    by (simp add: assessFrame_def Let_def)
  have re: "reason ?r = trimToWordLimit (stringOr (map_of ?parsed ''reason'') ''Insufficient visual evidence.'') 18"
    by (simp add: assessFrame_def Let_def)
  have c1: "\<forall>s. ?status = Some (JStr (statusName s)) \<longrightarrow> stepStatus ?r = s"
    by (simp add: st coerceStepStatus_named)
  have c2: "(\<forall>s. ?status \<noteq> Some (JStr (statusName s))) \<longrightarrow> stepStatus ?r = ?fallback"
    using coerceStepStatus_other [of ?status ?fallback] by (simp only: st) blast
  have c3: "0 \<le> confidence ?r \<and> confidence ?r \<le> 1"
    by (simp only: cf coerceConfidence_range)
  have c4: "\<forall>x. map_of ?parsed ''confidence'' = Some (JNum (Finite x)) \<longrightarrow> confidence ?r = max 0 (min 1 x)"
    by (simp add: cf coerceConfidence_def)
  have c5: "(\<forall>x. map_of ?parsed ''confidence'' \<noteq> Some (JNum x)) \<or> map_of ?parsed ''confidence'' = Some (JNum NaN)
          \<longrightarrow> confidence ?r = 0.5"
    by (auto simp: cf coerceConfidence_def split: option.splits json.splits jsnumber.splits)
  have c6: "(\<forall>s. map_of ?parsed ''observation'' \<noteq> Some (JStr s)) \<longrightarrow> observation ?r = ''No clear visual change.''"
    by (auto simp: ob stringOr_def fallback_texts split: option.splits json.splits)
  have c7: "\<forall>s. map_of ?parsed ''observation'' = Some (JStr s) \<longrightarrow>
            observation ?r = (let ws = splitWords isSpace s
                             in if length ws \<le> 14 then joinWith '' '' ws
                                else joinWith '' '' (take 14 ws) @ ''...'')"
    by (simp add: ob stringOr_def trimToWordLimit_words)
  have c8: "length (splitWords isSpace (observation ?r)) \<le> 14"
    by (simp only: ob) (rule trimToWordLimit_count, simp)
  have c9: "(\<forall>s. map_of ?parsed ''reason'' \<noteq> Some (JStr s)) \<longrightarrow> reason ?r = ''Insufficient visual evidence.''"
    by (auto simp: re stringOr_def fallback_texts split: option.splits json.splits)
  have c10: "\<forall>s. map_of ?parsed ''reason'' = Some (JStr s) \<longrightarrow>
            reason ?r = (let ws = splitWords isSpace s
                        in if length ws \<le> 18 then joinWith '' '' ws
                           else joinWith '' '' (take 18 ws) @ ''...'')"
    by (simp add: re stringOr_def trimToWordLimit_words)
  have c11: "length (splitWords isSpace (reason ?r)) \<le> 18"
    by (simp only: re) (rule trimToWordLimit_count, simp)
  have c12: "parse outputText = None \<and> (\<forall>m. matchBraces outputText = Some m \<longrightarrow> parse m = None) \<longrightarrow>
          ?r = \<lparr>observation = ''No clear visual change.'', stepStatus = ?fallback, confidence = 0.5,
               reason = ''Insufficient visual evidence.''\<rparr>"
  proof
    assume h: "parse outputText = None \<and> (\<forall>m. matchBraces outputText = Some m \<longrightarrow> parse m = None)"
    then have "?parsed = []"
      by (auto simp: parseFrameAssessment_def tryParseJsonObject_def tryParseUnknownJson_def
               split: option.splits json.splits)
    then show "?r = \<lparr>observation = ''No clear visual change.'', stepStatus = ?fallback, confidence = 0.5,
               reason = ''Insufficient visual evidence.''\<rparr>"
      by (simp add: assessFrame_def Let_def stringOr_def nullish_def coerceStepStatus_def
                    coerceConfidence_def fallback_texts)
  qed
  show ?thesis
    unfolding Let_def
    using c1 c2 c3 c4 c5 c6 c7 c8 c9 c10 c11 c12 unfolding Let_def by blast
qed

theorem frame_assessment_coercion_witness:
  "truthy (currentStep eggsLocked) \<and>
   parseFrameAssessment sampleParse ''{\"step_status\":\"done\",\"confidence\":7,\"reason\":42}'' =
     [(''step_status'', JStr ''done''), (''confidence'', JNum (Finite 7)), (''reason'', JNum (Finite 42))] \<and>
   stepStatus (assessFrame sampleParse ''{\"step_status\":\"done\",\"confidence\":7,\"reason\":42}'' eggsLocked) = unclear \<and>
   confidence (assessFrame sampleParse ''{\"step_status\":\"done\",\"confidence\":7,\"reason\":42}'' eggsLocked) = 1 \<and>
   observation (assessFrame sampleParse ''{\"step_status\":\"done\",\"confidence\":7,\"reason\":42}'' eggsLocked) =
     ''No clear visual change.'' \<and>
   reason (assessFrame sampleParse ''{\"step_status\":\"done\",\"confidence\":7,\"reason\":42}'' eggsLocked) =
     ''Insufficient visual evidence.'' \<and>
   sampleParse ''I cannot see the bench.'' = None \<and>
   matchBraces ''I cannot see the bench.'' = None \<and>
   assessFrame sampleParse ''I cannot see the bench.'' eggsLocked =
     \<lparr>observation = ''No clear visual change.'', stepStatus = unclear, confidence = 0.5,
      reason = ''Insufficient visual evidence.''\<rparr>"
proof -
  have p: "parseFrameAssessment sampleParse ''{\"step_status\":\"done\",\"confidence\":7,\"reason\":42}'' =
     [(''step_status'', JStr ''done''), (''confidence'', JNum (Finite 7)), (''reason'', JNum (Finite 42))]"
    by (simp add: parseFrameAssessment_def tryParseJsonObject_def tryParseUnknownJson_def sampleParse_def)
  have n: "\<forall>s. Some (JStr ''done'') \<noteq> Some (JStr (statusName s))"
  proof
    fix s show "Some (JStr ''done'') \<noteq> Some (JStr (statusName s))"
      by (cases s) (simp_all add: statusName_def)
  qed
  have t: "truthy (currentStep eggsLocked)"
    by (simp add: truthy_def eggsLocked_def)
  have g: "sampleParse ''I cannot see the bench.'' = None"
    by (simp add: sampleParse_def)
  have m: "matchBraces ''I cannot see the bench.'' = None"
    by (simp add: matchBraces_def)
  show ?thesis
    using frame_assessment_coercion
            [where parse = sampleParse and a = eggsLocked
               and outputText = "''{\"step_status\":\"done\",\"confidence\":7,\"reason\":42}''"]
          frame_assessment_coercion
            [where parse = sampleParse and a = eggsLocked and outputText = "''I cannot see the bench.''"]
          n
    by (simp add: Let_def p t g m nullish_def)
qed

subsection \<open>Sanitizing a proposed step\<close>

lemma strip_terminators_split:
  "stripTrailingTerminators s @ rev (takeWhile isTerminator (rev s)) = s"
proof -
  have "rev (takeWhile isTerminator (rev s) @ dropWhile isTerminator (rev s)) = s"
    by simp
  then show ?thesis by (simp add: stripTrailingTerminators_def del: takeWhile_dropWhile_id)
qed

lemma strip_terminators_snoc:
  "isTerminator c \<Longrightarrow> stripTrailingTerminators (s @ [c]) = stripTrailingTerminators s"
  by (simp add: stripTrailingTerminators_def)

lemma strip_terminators_words_le:
  "length (splitWords sep (stripTrailingTerminators s)) \<le> length (splitWords sep s)"
  using splitWords_prefix_le [of sep "stripTrailingTerminators s" "rev (takeWhile isTerminator (rev s))"]
  by (simp add: strip_terminators_split)

lemma isTerminator_not_space: "isTerminator c \<Longrightarrow> \<not> isSpace c"
  by (auto simp: isTerminator_def isSpace_def Let_def)

lemma splitWords_suffix_le:
  assumes "\<forall>c\<in>set t. \<not> sep c"
  shows "length (splitWords sep (x @ t)) \<le> length (splitWords sep x) + 1"
proof -
  let ?A = "splitOn sep x"
  have a: "splitOn sep (x @ t) = butlast ?A @ [last ?A @ t]"
    by (simp add: splitOn_append splitOn_no_sep [OF assms])
  have "filterBoolean ?A = filterBoolean (butlast ?A) @ filterBoolean [last ?A]"
    by (metis filterBoolean_def filter_append append_butlast_last_id splitOn_nonempty)
  then have "length (filterBoolean (butlast ?A)) \<le> length (filterBoolean ?A)" by simp
  moreover have "length (filterBoolean (butlast ?A @ [last ?A @ t])) \<le> length (filterBoolean (butlast ?A)) + 1"
    by (simp add: filterBoolean_def)
  ultimately show ?thesis by (simp add: splitWords_def a)
qed

lemma words_with_terminators_le:
  "length (splitWords isSpace s) \<le> length (splitWords isSpace (stripTrailingTerminators s)) + 1"
proof -
  have "\<forall>c\<in>set (rev (takeWhile isTerminator (rev s))). \<not> isSpace c"
    using isTerminator_not_space by (auto dest: set_takeWhileD)
  from splitWords_suffix_le [OF this, of "stripTrailingTerminators s"]
  show ?thesis by (simp add: strip_terminators_split)
qed

lemma sanitize_cases:
  "sanitizePanelStep input = [] \<or>
   (\<exists>step2. let ws = splitWords isSpace (stripTrailingTerminators step2)
            in endsWithTerminator step2 \<and>
               sanitizePanelStep input = (if length ws > 12 then joinWith '' '' (take 12 ws) @ ''.'' else step2))"
proof (cases "firstNonBlankLine input")
  case None
  then show ?thesis by (simp add: sanitizePanelStep_def)
next
  case (Some firstLine)
  let ?step = "trim (stripBullet (stripStepNumberLabel (stripNextStepLabel firstLine)))"
  show ?thesis
  proof (cases "?step = []")
    case True
    then show ?thesis using Some by (simp add: sanitizePanelStep_def)
  next
    case False
    let ?step1 = "truncateAtTerminator ?step"
    let ?step2 = "if endsWithTerminator ?step1 then ?step1 else ?step1 @ ''.''"
    have e: "endsWithTerminator ?step2"
      by (simp add: endsWithTerminator_def isTerminator_def)
    have r: "sanitizePanelStep input =
               (if length (splitWords isSpace (stripTrailingTerminators ?step2)) > 12
                then joinWith '' '' (take 12 (splitWords isSpace (stripTrailingTerminators ?step2))) @ ''.''
                else ?step2)"
      using Some False by (simp add: sanitizePanelStep_def Let_def)
    show ?thesis
      unfolding Let_def using e r by blast
  qed
qed

lemma sanitize_bounds:
  "sanitizePanelStep input = [] \<or>
   (endsWithTerminator (sanitizePanelStep input) \<and>
    length (splitWords isSpace (stripTrailingTerminators (sanitizePanelStep input))) \<le> 12 \<and>
    length (splitWords isSpace (sanitizePanelStep input)) \<le> 13)"
proof (cases "sanitizePanelStep input = []")
  case True
  then show ?thesis by simp
next
  case False
  then obtain step2 where s2: "endsWithTerminator step2"
    and r: "sanitizePanelStep input =
              (if length (splitWords isSpace (stripTrailingTerminators step2)) > 12
               then joinWith '' '' (take 12 (splitWords isSpace (stripTrailingTerminators step2))) @ ''.''
               else step2)"
    using sanitize_cases [of input] by (auto simp: Let_def)
  let ?ws = "splitWords isSpace (stripTrailingTerminators step2)"
  show ?thesis
  proof (cases "length ?ws > 12")
    case True
    let ?j = "joinWith '' '' (take 12 ?ws)"
    have res: "sanitizePanelStep input = ?j @ ''.''" using r True by simp
    have q: "\<forall>w\<in>set (take 12 ?ws). w \<noteq> [] \<and> (\<forall>c\<in>set w. \<not> isSpace c)"
      using splitWords_pieces by (meson in_set_takeD)
    have j: "splitWords isSpace ?j = take 12 ?ws"
      using splitWords_joinWith [OF q, of "CHR '' ''"] by simp
    have e: "endsWithTerminator (?j @ ''.'')"
      by (simp add: endsWithTerminator_def isTerminator_def)
    have "stripTrailingTerminators (?j @ ''.'') = stripTrailingTerminators ?j"
      by (rule strip_terminators_snoc) (simp add: isTerminator_def)
    then have "length (splitWords isSpace (stripTrailingTerminators (?j @ ''.''))) \<le> length (splitWords isSpace ?j)"
      using strip_terminators_words_le [of isSpace ?j] by simp
    then have a: "length (splitWords isSpace (stripTrailingTerminators (?j @ ''.''))) \<le> 12"
      using j by simp
    have b: "length (splitWords isSpace (?j @ ''.'')) \<le> 13"
      using words_with_terminators_le [of "?j @ ''.''"] a by simp
    show ?thesis using e a b by (simp only: res) simp
  next
    case False
    then have res: "sanitizePanelStep input = step2" using r by simp
    have a: "length (splitWords isSpace (stripTrailingTerminators step2)) \<le> 12" using False by simp
    have b: "length (splitWords isSpace step2) \<le> 13"
      using words_with_terminators_le [of step2] a by simp
    show ?thesis using s2 a b by (simp only: res) simp
  qed
qed

text \<open>
  C4 as stated fails: a terminator that stands alone after white space is kept and is
  not counted, so twelve words followed by \<open> .\<close> come back unchanged, thirteen
  white-space separated pieces.
\<close>

theorem sanitized_step_thirteen_pieces_counterexample:
  "sanitizePanelStep ''Slowly whisk the two large eggs with milk and sugar until combined .'' =
     ''Slowly whisk the two large eggs with milk and sugar until combined .'' \<and>
   splitWords isSpace ''Slowly whisk the two large eggs with milk and sugar until combined .'' =
     [''Slowly'', ''whisk'', ''the'', ''two'', ''large'', ''eggs'', ''with'', ''milk'', ''and'', ''sugar'',
      ''until'', ''combined'', ''.''] \<and>
   length (splitWords isSpace
     (sanitizePanelStep ''Slowly whisk the two large eggs with milk and sugar until combined .'')) = 13"
proof -
  have s: "sanitizePanelStep ''Slowly whisk the two large eggs with milk and sugar until combined .'' =
     ''Slowly whisk the two large eggs with milk and sugar until combined .''"
    by code_simp
  have w: "splitWords isSpace ''Slowly whisk the two large eggs with milk and sugar until combined .'' =
     [''Slowly'', ''whisk'', ''the'', ''two'', ''large'', ''eggs'', ''with'', ''milk'', ''and'', ''sugar'',
      ''until'', ''combined'', ''.'']"
    by code_simp
  show ?thesis by (simp add: s w)
qed

text \<open>
  C4, amended.  The sanitized step is empty, or it ends with \<open>.\<close>, \<open>!\<close> or \<open>?\<close> and
  the text before its trailing terminal punctuation has at most 12 white-space
  separated words; the whole text then has at most 13 white-space separated pieces.
\<close>

theorem sanitized_step_shape:
  "sanitizePanelStep input = [] \<or>
   (endsWithTerminator (sanitizePanelStep input) \<and>
    length (splitWords isSpace (stripTrailingTerminators (sanitizePanelStep input))) \<le> 12 \<and>
    length (splitWords isSpace (sanitizePanelStep input)) \<le> 13)"
  by (rule sanitize_bounds)

theorem sanitized_step_shape_witness:
  "sanitizePanelStep ''Step 2: Slowly whisk the two large eggs with whole milk and sugar until just combined''
     = ''Slowly whisk the two large eggs with whole milk and sugar until.'' \<and>
   endsWithTerminator ''Slowly whisk the two large eggs with whole milk and sugar until.'' \<and>
   length (splitWords isSpace (stripTrailingTerminators
             ''Slowly whisk the two large eggs with whole milk and sugar until.'')) \<le> 12 \<and>
   sanitizePanelStep ''   '' = []"
proof -
  have s: "sanitizePanelStep ''Step 2: Slowly whisk the two large eggs with whole milk and sugar until just combined''
     = ''Slowly whisk the two large eggs with whole milk and sugar until.''"
    by code_simp
  have e: "sanitizePanelStep ''   '' = []"
    by code_simp
  show ?thesis
    using sanitized_step_shape
            [of "''Step 2: Slowly whisk the two large eggs with whole milk and sugar until just combined''"]
          s e
    by simp
qed

subsection \<open>The step lock\<close>

text \<open>
  C3.  With a step locked and the gate flag off, a proposal that sanitizes to a
  non-empty step that is not too broad, whose normalized key differs from the locked
  step's and whose token overlap with it is below 0.65, is rejected with
  \<open>current_step_not_visually_complete\<close>; the result carries the locked step, the
  sanitized candidate and the status of the latest frame (\<open>unknown\<close> when there is
  none), and the locked step stays as it was.  The candidate is kept as pending step.
\<close>

theorem different_step_blocked_until_complete:
  "currentStep a = Some cur \<and> cur \<noteq> [] \<and> \<not> frameAllowsStepAdvance a \<and>
   sanitizePanelStep requestedStep \<noteq> [] \<and> \<not> isStepTooBroad (sanitizePanelStep requestedStep) \<and>
   normalizeStepKey (sanitizePanelStep requestedStep) \<noteq> normalizeStepKey cur \<and>
   tokenOverlap (normalizeStepKey cur) (normalizeStepKey (sanitizePanelStep requestedStep)) < 0.65
   \<longrightarrow>
   fst (applyPanelStepGate cookingName requestedStep a) =
     notVisuallyComplete cur (sanitizePanelStep requestedStep)
       (case latestFrameAssessment a of None \<Rightarrow> ''unknown'' | Some f \<Rightarrow> statusName (stepStatus f)) \<and>
   currentStep (snd (applyPanelStepGate cookingName requestedStep a)) = Some cur \<and>
   pendingNextStep (snd (applyPanelStepGate cookingName requestedStep a)) = Some (sanitizePanelStep requestedStep)"
  by (auto simp: applyPanelStepGate_def Let_def isSameStep_def)

theorem different_step_blocked_until_complete_witness:
  "currentStep eggsLocked = Some ''Grab 2 eggs.'' \<and> \<not> frameAllowsStepAdvance eggsLocked \<and>
   sanitizePanelStep ''Next step: Crack the eggs into a bowl. Then whisk.'' = ''Crack the eggs into a bowl.'' \<and>
   \<not> isStepTooBroad ''Crack the eggs into a bowl.'' \<and>
   normalizeStepKey ''Crack the eggs into a bowl.'' = ''crack the eggs into a bowl'' \<and>
   normalizeStepKey ''Grab 2 eggs.'' = ''grab 2 eggs'' \<and>
   tokenOverlap ''grab 2 eggs'' ''crack the eggs into a bowl'' = 1 / 2 \<and>
   fst (applyPanelStepGate ''pancakes'' ''Next step: Crack the eggs into a bowl. Then whisk.'' eggsLocked) =
     notVisuallyComplete ''Grab 2 eggs.'' ''Crack the eggs into a bowl.'' ''in_progress'' \<and>
   currentStep (snd (applyPanelStepGate ''pancakes'' ''Next step: Crack the eggs into a bowl. Then whisk.'' eggsLocked))
     = Some ''Grab 2 eggs.''"
proof -
  have s: "sanitizePanelStep ''Next step: Crack the eggs into a bowl. Then whisk.'' = ''Crack the eggs into a bowl.''"
    by code_simp
  have b: "\<not> isStepTooBroad ''Crack the eggs into a bowl.''"
    by code_simp
  have k: "normalizeStepKey ''Crack the eggs into a bowl.'' = ''crack the eggs into a bowl''"
    "normalizeStepKey ''Grab 2 eggs.'' = ''grab 2 eggs''"
    by code_simp+
  have t: "tokenize ''grab 2 eggs'' = [''grab'', ''egg'']"
    "tokenize ''crack the eggs into a bowl'' = [''crack'', ''egg'', ''bowl'']"
    by code_simp+
  have v: "tokenOverlap ''grab 2 eggs'' ''crack the eggs into a bowl'' = 1 / 2"
    by (simp add: tokenOverlap_def t)
  have e: "currentStep eggsLocked = Some ''Grab 2 eggs.''" "\<not> frameAllowsStepAdvance eggsLocked"
    "latestFrameAssessment eggsLocked = Some \<lparr>observation = ''Hand reaches for the egg carton.'',
        stepStatus = in_progress, confidence = 0.8, reason = ''Eggs are not on the bench yet.''\<rparr>"
    by (simp_all add: eggsLocked_def)
  show ?thesis
    using different_step_blocked_until_complete
            [where a = eggsLocked and cur = "''Grab 2 eggs.''" and cookingName = "''pancakes''"
               and requestedStep = "''Next step: Crack the eggs into a bowl. Then whisk.''"]
          s b k v e
    by (simp add: statusName_def)
qed

lemma isSameStep_self: "normalizeStepKey n \<noteq> [] \<Longrightarrow> isSameStep n n"
  by (simp add: isSameStep_def)

lemma markCurrentStepCompleted_empty_key:
  "currentStep a = Some cur \<Longrightarrow> normalizeStepKey cur = [] \<Longrightarrow> markCurrentStepCompleted a = a"
  by (simp add: markCurrentStepCompleted_def)

lemma markCurrentStepCompleted_fields [simp]:
  "currentDish (markCurrentStepCompleted a) = currentDish a"
  "currentStep (markCurrentStepCompleted a) = currentStep a"
  "pendingNextStep (markCurrentStepCompleted a) = pendingNextStep a"
  "frameAllowsStepAdvance (markCurrentStepCompleted a) = frameAllowsStepAdvance a"
  "latestFrameAssessment (markCurrentStepCompleted a) = latestFrameAssessment a"
  "panel (markCurrentStepCompleted a) = panel a"
  by (simp_all add: markCurrentStepCompleted_def Let_def split: option.splits)

text \<open>What one call of the gate does to the record of completed steps.\<close>

lemma gate_completed_unchanged:
  assumes "\<forall>n. fst (applyPanelStepGate c t a) \<noteq> stepAdvanced n \<or>
             (\<exists>cur. currentStep a = Some cur \<and> normalizeStepKey cur = [])"
  shows "completedStepKeys (snd (applyPanelStepGate c t a)) = completedStepKeys a \<and>
         completedSteps (store (snd (applyPanelStepGate c t a))) = completedSteps (store a)"
  using assms
  by (auto simp: applyPanelStepGate_def Let_def markCurrentStepCompleted_def addObservation_def
           split: option.splits if_splits)

text \<open>The state after an accepted proposal, and the second call of the same proposal.\<close>

lemma gate_accepted_state:
  assumes "fst (applyPanelStepGate c t a) = stepLocked n \<or> fst (applyPanelStepGate c t a) = stepAdvanced n"
  shows "n = sanitizePanelStep t \<and> n \<noteq> [] \<and> \<not> isStepTooBroad n \<and>
         currentStep (snd (applyPanelStepGate c t a)) = Some n \<and>
         pendingNextStep (snd (applyPanelStepGate c t a)) = None \<and>
         panel (snd (applyPanelStepGate c t a)) = Some (c, n) \<and>
         currentDish (snd (applyPanelStepGate c t a)) = (if trim c \<noteq> [] then trim c else currentDish a)"
  using assms
  by (auto simp: applyPanelStepGate_def Let_def split: option.splits if_splits)

lemma gate_rejected_state:
  assumes "fst (applyPanelStepGate c t a) = emptyStep \<or> fst (applyPanelStepGate c t a) = tooBroad \<or>
           fst (applyPanelStepGate c t a) = notVisuallyComplete x y z"
  shows "currentStep (snd (applyPanelStepGate c t a)) = currentStep a \<and>
         frameAllowsStepAdvance (snd (applyPanelStepGate c t a)) = frameAllowsStepAdvance a \<and>
         (fst (applyPanelStepGate c t a) = notVisuallyComplete x y z \<longrightarrow> \<not> frameAllowsStepAdvance a)"
  using assms
  by (auto simp: applyPanelStepGate_def Let_def split: option.splits if_splits)

lemma gate_repeat_after_accept:
  assumes "currentStep b = Some n" "n = sanitizePanelStep t" "n \<noteq> []" "\<not> isStepTooBroad n"
    "normalizeStepKey n \<noteq> []" "pendingNextStep b = None" "panel b = Some (c, n)"
    "currentDish b = (if trim c \<noteq> [] then trim c else d)"
  shows "applyPanelStepGate c t b = (stepLocked n, b)"
  using assms isSameStep_self [of n]
  by (auto simp: applyPanelStepGate_def Let_def)

lemma gate_empty_iff:
  "fst (applyPanelStepGate c t a) = emptyStep \<longleftrightarrow> sanitizePanelStep t = []"
  by (auto simp: applyPanelStepGate_def Let_def split: option.splits if_splits)

lemma gate_tooBroad_iff:
  "fst (applyPanelStepGate c t a) = tooBroad \<longleftrightarrow>
     sanitizePanelStep t \<noteq> [] \<and> isStepTooBroad (sanitizePanelStep t)"
  by (auto simp: applyPanelStepGate_def Let_def split: option.splits if_splits)

lemma gate_advanced_needs_flag:
  "fst (applyPanelStepGate c t a) = stepAdvanced m \<Longrightarrow> frameAllowsStepAdvance a"
  by (auto simp: applyPanelStepGate_def Let_def split: option.splits if_splits)

lemma gate_repeat_locked:
  assumes acc: "fst (applyPanelStepGate c t a) = stepLocked n \<or> fst (applyPanelStepGate c t a) = stepAdvanced n"
    and key: "normalizeStepKey n \<noteq> []"
  shows "applyPanelStepGate c t (snd (applyPanelStepGate c t a)) = (stepLocked n, snd (applyPanelStepGate c t a))"
proof -
  note st = gate_accepted_state [OF acc]
  have p1: "currentStep (snd (applyPanelStepGate c t a)) = Some n" using st by blast
  have p2: "n = sanitizePanelStep t" using st by blast
  have p3: "n \<noteq> []" using st by blast
  have p4: "\<not> isStepTooBroad n" using st by blast
  have p6: "pendingNextStep (snd (applyPanelStepGate c t a)) = None" using st by blast
  have p7: "panel (snd (applyPanelStepGate c t a)) = Some (c, n)" using st by blast
  have p8: "currentDish (snd (applyPanelStepGate c t a)) = (if trim c \<noteq> [] then trim c else currentDish a)"
    using st by blast
  show ?thesis
    by (rule gate_repeat_after_accept [OF p1 p2 p3 p4 key p6 p7 p8])
qed

lemma gate_repeat_not_marking:
  "(\<forall>m. fst (applyPanelStepGate c t (snd (applyPanelStepGate c t a))) \<noteq> stepAdvanced m) \<or>
   (\<exists>cur. currentStep (snd (applyPanelStepGate c t a)) = Some cur \<and> normalizeStepKey cur = [])"
proof (cases "fst (applyPanelStepGate c t a)")
  case emptyStep
  then have "fst (applyPanelStepGate c t (snd (applyPanelStepGate c t a))) = emptyStep"
    by (simp add: gate_empty_iff)
  then show ?thesis by simp
next
  case tooBroad
  then have "fst (applyPanelStepGate c t (snd (applyPanelStepGate c t a))) = tooBroad"
    by (simp add: gate_tooBroad_iff)
  then show ?thesis by simp
next
  case (notVisuallyComplete x y z)
  then have "\<not> frameAllowsStepAdvance (snd (applyPanelStepGate c t a))"
    using gate_rejected_state [of c t a x y z] by simp
  then show ?thesis using gate_advanced_needs_flag by blast
next
  case (stepLocked n)
  then have acc: "fst (applyPanelStepGate c t a) = stepLocked n \<or> fst (applyPanelStepGate c t a) = stepAdvanced n"
    by simp
  show ?thesis
  proof (cases "normalizeStepKey n = []")
    case True
    then show ?thesis using gate_accepted_state [OF acc] by blast
  next
    case False
    then show ?thesis using gate_repeat_locked [OF acc False] by simp
  qed
next
  case (stepAdvanced n)
  then have acc: "fst (applyPanelStepGate c t a) = stepLocked n \<or> fst (applyPanelStepGate c t a) = stepAdvanced n"
    by simp
  show ?thesis
  proof (cases "normalizeStepKey n = []")
    case True
    then show ?thesis using gate_accepted_state [OF acc] by blast
  next
    case False
    then show ?thesis using gate_repeat_locked [OF acc False] by simp
  qed
qed

text \<open>
  C9 as stated fails: with a step locked and the gate flag off, the second of two
  identical proposals of a different step is rejected like the first one; it is not
  treated as an edit of the locked step.  And a step without a letter or digit has an
  empty key, which \<open>isSameStep\<close> never takes for the same step: proposed twice with
  the gate flag on, it is locked by the first call and the second call advances again.
\<close>

theorem repeated_different_step_counterexample:
  "currentStep eggsLocked = Some ''Grab 2 eggs.'' \<and>
   fst (applyPanelStepGate ''pancakes'' ''Crack the eggs into a bowl.''
          (snd (applyPanelStepGate ''pancakes'' ''Crack the eggs into a bowl.'' eggsLocked))) =
     notVisuallyComplete ''Grab 2 eggs.'' ''Crack the eggs into a bowl.'' ''in_progress'' \<and>
   currentStep (snd (applyPanelStepGate ''pancakes'' ''!'' (eggsLocked\<lparr>frameAllowsStepAdvance := True\<rparr>))) =
     Some ''!'' \<and>
   fst (applyPanelStepGate ''pancakes'' ''!''
          (snd (applyPanelStepGate ''pancakes'' ''!'' (eggsLocked\<lparr>frameAllowsStepAdvance := True\<rparr>)))) =
     stepAdvanced ''!''"
proof -
  have s: "sanitizePanelStep ''Crack the eggs into a bowl.'' = ''Crack the eggs into a bowl.''"
    "sanitizePanelStep ''!'' = ''!''"
    by code_simp+
  have b: "\<not> isStepTooBroad ''Crack the eggs into a bowl.''" "\<not> isStepTooBroad ''!''"
    by code_simp+
  have k: "normalizeStepKey ''Crack the eggs into a bowl.'' = ''crack the eggs into a bowl''"
    "normalizeStepKey ''Grab 2 eggs.'' = ''grab 2 eggs''"
    "normalizeStepKey ''!'' = []"
    by code_simp+
  have t: "tokenize ''grab 2 eggs'' = [''grab'', ''egg'']"
    "tokenize ''crack the eggs into a bowl'' = [''crack'', ''egg'', ''bowl'']"
    by code_simp+
  have v: "\<not> isSameStep ''Grab 2 eggs.'' ''Crack the eggs into a bowl.''"
    by (simp add: isSameStep_def k tokenOverlap_def t)
  have w: "\<not> isSameStep ''Grab 2 eggs.'' ''!''" "\<not> isSameStep ''!'' ''!''"
    by (simp_all add: isSameStep_def k)
  have c1: "currentStep eggsLocked = Some ''Grab 2 eggs.''"
    by (simp add: eggsLocked_def)
  have c2: "fst (applyPanelStepGate ''pancakes'' ''Crack the eggs into a bowl.''
          (snd (applyPanelStepGate ''pancakes'' ''Crack the eggs into a bowl.'' eggsLocked))) =
     notVisuallyComplete ''Grab 2 eggs.'' ''Crack the eggs into a bowl.'' ''in_progress''"
    by (simp add: applyPanelStepGate_def Let_def s b v eggsLocked_def resetSession_def statusName_def)
  have c3: "currentStep (snd (applyPanelStepGate ''pancakes'' ''!'' (eggsLocked\<lparr>frameAllowsStepAdvance := True\<rparr>))) =
     Some ''!''"
    by (simp add: applyPanelStepGate_def Let_def s b w eggsLocked_def resetSession_def)
  have c4: "fst (applyPanelStepGate ''pancakes'' ''!''
          (snd (applyPanelStepGate ''pancakes'' ''!'' (eggsLocked\<lparr>frameAllowsStepAdvance := True\<rparr>)))) =
     stepAdvanced ''!''"
    by (simp add: applyPanelStepGate_def Let_def s b w eggsLocked_def resetSession_def)
  show ?thesis using c1 c2 c3 c4 by blast
qed

text \<open>
  C9, amended.  The second of two identical proposals in a row never marks a step
  completed: it adds no key to \<open>completedStepKeys\<close> and no step to the completed
  steps.  When the first proposal was accepted (locked or advanced) and the sanitized
  step has a non-empty normalized key, the second one is an edit of the same step: it
  returns \<open>locked\<close> with \<open>advanced = false\<close> and changes nothing.
\<close>

theorem repeated_proposal_marks_nothing:
  "completedStepKeys (snd (applyPanelStepGate c t (snd (applyPanelStepGate c t a)))) =
     completedStepKeys (snd (applyPanelStepGate c t a)) \<and>
   completedSteps (store (snd (applyPanelStepGate c t (snd (applyPanelStepGate c t a))))) =
     completedSteps (store (snd (applyPanelStepGate c t a))) \<and>
   ((fst (applyPanelStepGate c t a) = stepLocked n \<or> fst (applyPanelStepGate c t a) = stepAdvanced n) \<and>
    normalizeStepKey n \<noteq> [] \<longrightarrow>
      applyPanelStepGate c t (snd (applyPanelStepGate c t a)) = (stepLocked n, snd (applyPanelStepGate c t a)))"
proof (intro conjI impI)
  show "completedStepKeys (snd (applyPanelStepGate c t (snd (applyPanelStepGate c t a)))) =
     completedStepKeys (snd (applyPanelStepGate c t a))"
    using gate_completed_unchanged [of c t "snd (applyPanelStepGate c t a)"] gate_repeat_not_marking [of c t a]
    by blast
  show "completedSteps (store (snd (applyPanelStepGate c t (snd (applyPanelStepGate c t a))))) =
     completedSteps (store (snd (applyPanelStepGate c t a)))"
    using gate_completed_unchanged [of c t "snd (applyPanelStepGate c t a)"] gate_repeat_not_marking [of c t a]
    by blast
next
  assume h: "(fst (applyPanelStepGate c t a) = stepLocked n \<or> fst (applyPanelStepGate c t a) = stepAdvanced n) \<and>
    normalizeStepKey n \<noteq> []"
  show "applyPanelStepGate c t (snd (applyPanelStepGate c t a)) = (stepLocked n, snd (applyPanelStepGate c t a))"
    using h gate_repeat_locked [of c t a n] by blast
qed

theorem repeated_proposal_marks_nothing_witness:
  "fst (applyPanelStepGate ''pancakes'' ''Crack the eggs into a bowl.''
          (eggsLocked\<lparr>frameAllowsStepAdvance := True\<rparr>)) = stepAdvanced ''Crack the eggs into a bowl.'' \<and>
   normalizeStepKey ''Crack the eggs into a bowl.'' = ''crack the eggs into a bowl'' \<and>
   fst (applyPanelStepGate ''pancakes'' ''Crack the eggs into a bowl.''
          (snd (applyPanelStepGate ''pancakes'' ''Crack the eggs into a bowl.''
                  (eggsLocked\<lparr>frameAllowsStepAdvance := True\<rparr>)))) = stepLocked ''Crack the eggs into a bowl.'' \<and>
   completedStepKeys (snd (applyPanelStepGate ''pancakes'' ''Crack the eggs into a bowl.''
          (snd (applyPanelStepGate ''pancakes'' ''Crack the eggs into a bowl.''
                  (eggsLocked\<lparr>frameAllowsStepAdvance := True\<rparr>))))) = {''grab 2 eggs''}"
proof -
  have s: "sanitizePanelStep ''Crack the eggs into a bowl.'' = ''Crack the eggs into a bowl.''"
    by code_simp
  have b: "\<not> isStepTooBroad ''Crack the eggs into a bowl.''"
    by code_simp
  have k: "normalizeStepKey ''Crack the eggs into a bowl.'' = ''crack the eggs into a bowl''"
    "normalizeStepKey ''Grab 2 eggs.'' = ''grab 2 eggs''"
    by code_simp+
  have t: "tokenize ''grab 2 eggs'' = [''grab'', ''egg'']"
    "tokenize ''crack the eggs into a bowl'' = [''crack'', ''egg'', ''bowl'']"
    by code_simp+
  have v: "\<not> isSameStep ''Grab 2 eggs.'' ''Crack the eggs into a bowl.''"
    by (simp add: isSameStep_def k tokenOverlap_def t)
  have first: "fst (applyPanelStepGate ''pancakes'' ''Crack the eggs into a bowl.''
          (eggsLocked\<lparr>frameAllowsStepAdvance := True\<rparr>)) = stepAdvanced ''Crack the eggs into a bowl.''"
    by (simp add: applyPanelStepGate_def Let_def s b v eggsLocked_def resetSession_def)
  have keys: "completedStepKeys (snd (applyPanelStepGate ''pancakes'' ''Crack the eggs into a bowl.''
          (eggsLocked\<lparr>frameAllowsStepAdvance := True\<rparr>))) = {''grab 2 eggs''}"
    by (simp add: applyPanelStepGate_def Let_def s b v eggsLocked_def resetSession_def
                  markCurrentStepCompleted_def k)
  show ?thesis
    using repeated_proposal_marks_nothing
            [where c = "''pancakes''" and t = "''Crack the eggs into a bowl.''"
               and a = "eggsLocked\<lparr>frameAllowsStepAdvance := True\<rparr>"
               and n = "''Crack the eggs into a bowl.''"]
          first keys k
    by simp
qed

subsection \<open>The catalog matcher\<close>

lemma replaceRuns_keeps: "c \<in> set s \<Longrightarrow> \<not> P c \<Longrightarrow> c \<in> set (replaceRuns P s)"
proof (induction P s rule: replaceRuns.induct)
  case (1 P)
  then show ?case by simp
next
  case (2 P x xs)
  show ?case
  proof (cases "P x")
    case True
    then have "c \<in> set xs" using 2(3,4) by auto
    then have "c \<in> set (dropWhile P xs)"
      using 2(4) by (induction xs) auto
    then show ?thesis using 2(1) [OF True] 2(4) True by simp
  next
    case False
    then show ?thesis using 2 by auto
  qed
qed

lemma replaceRuns_chars: "c \<in> set (replaceRuns P s) \<Longrightarrow> c = CHR '' '' \<or> (c \<in> set s \<and> \<not> P c)"
proof (induction P s rule: replaceRuns.induct)
  case (1 P)
  then show ?case by simp
next
  case (2 P x xs)
  show ?case
  proof (cases "P x")
    case True
    then have "c = CHR '' '' \<or> c \<in> set (replaceRuns P (dropWhile P xs))" using 2(3) by simp
    then show ?thesis using 2(1) [OF True] by (auto dest: set_dropWhileD)
  next
    case False
    then show ?thesis using 2 by auto
  qed
qed

lemma trim_keeps: "c \<in> set s \<Longrightarrow> \<not> isSpace c \<Longrightarrow> c \<in> set (trim s)"
proof -
  assume c: "c \<in> set s" "\<not> isSpace c"
  have a: "\<And>xs. c \<in> set xs \<Longrightarrow> c \<in> set (dropWhile isSpace xs)"
  proof -
    fix xs show "c \<in> set xs \<Longrightarrow> c \<in> set (dropWhile isSpace xs)"
      using c(2) by (induction xs) auto
  qed
  show ?thesis using c(1) by (simp add: trim_def a)
qed

lemma trim_nonempty_has_nonspace: "trim s \<noteq> [] \<Longrightarrow> \<exists>c\<in>set (trim s). \<not> isSpace c"
proof -
  assume "trim s \<noteq> []"
  then have ne: "dropWhile isSpace (rev (dropWhile isSpace s)) \<noteq> []" by (simp add: trim_def)
  then have "\<not> isSpace (hd (dropWhile isSpace (rev (dropWhile isSpace s))))"
    by (rule hd_dropWhile)
  moreover have "hd (dropWhile isSpace (rev (dropWhile isSpace s))) \<in> set (trim s)"
    using ne by (simp add: trim_def)
  ultimately show ?thesis by blast
qed

lemma isAlnumLower_not_space: "isAlnumLower c \<Longrightarrow> \<not> isSpace c"
  by (auto simp: isAlnumLower_def isLowerAZ_def isDigit_def isSpace_def Let_def)

lemma isAlnumLower_toLower: "isAlnumLower c \<Longrightarrow> toLowerChar c = c"
  by (auto simp: isAlnumLower_def isLowerAZ_def isDigit_def toLowerChar_def Let_def)

lemma isAlnumLower_not_apostrophe: "isAlnumLower c \<Longrightarrow> c \<noteq> CHR 0x27"
  by (auto simp: isAlnumLower_def isLowerAZ_def isDigit_def Let_def)

lemma normalizeDishKey_keeps_alnum:
  assumes "c \<in> set s" "isAlnumLower c"
  shows "c \<in> set (normalizeDishKey s)"
proof -
  have "c \<in> set (toLowerCase s)"
    using assms isAlnumLower_toLower [OF assms(2)] by (force simp: toLowerCase_def)
  then have "c \<in> set (filter (\<lambda>c. c \<noteq> CHR 0x27) (toLowerCase s))"
    using isAlnumLower_not_apostrophe [OF assms(2)] by simp
  then have "c \<in> set (replaceRuns (\<lambda>c. \<not> isAlnumLower c) (filter (\<lambda>c. c \<noteq> CHR 0x27) (toLowerCase s)))"
    using assms(2) by (simp add: replaceRuns_keeps)
  then have "c \<in> set (trim (replaceRuns (\<lambda>c. \<not> isAlnumLower c) (filter (\<lambda>c. c \<noteq> CHR 0x27) (toLowerCase s))))"
    using isAlnumLower_not_space [OF assms(2)] by (simp add: trim_keeps)
  then show ?thesis
    using isAlnumLower_not_space [OF assms(2)] by (simp add: normalizeDishKey_def replaceRuns_keeps)
qed

lemma normalizeDishKey_has_alnum:
  assumes "normalizeDishKey s \<noteq> []"
  shows "\<exists>c\<in>set (normalizeDishKey s). isAlnumLower c"
proof -
  let ?u = "replaceRuns (\<lambda>c. \<not> isAlnumLower c) (filter (\<lambda>c. c \<noteq> CHR 0x27) (toLowerCase s))"
  have "trim ?u \<noteq> []" using assms by (auto simp: normalizeDishKey_def)
  then obtain c where c: "c \<in> set (trim ?u)" "\<not> isSpace c"
    using trim_nonempty_has_nonspace by blast
  then have "c \<in> set ?u" using set_trim_subset by blast
  then have "c = CHR '' '' \<or> isAlnumLower c" using replaceRuns_chars [of c _ _] by blast
  then have al: "isAlnumLower c" using c(2) by auto
  have "c \<in> set (normalizeDishKey s)"
    using c by (simp add: normalizeDishKey_def replaceRuns_keeps)
  then show ?thesis using al by blast
qed

lemma splitWords_nonempty: "c \<in> set s \<Longrightarrow> \<not> sep c \<Longrightarrow> splitWords sep s \<noteq> []"
proof (induction s)
  case Nil
  then show ?case by simp
next
  case (Cons x xs)
  show ?case
  proof (cases "sep x")
    case True
    then show ?thesis using Cons by (auto simp: splitWords_def)
  next
    case False
    then show ?thesis by (simp add: splitWords_def splitOn_cons_nonsep del: splitOn.simps)
  qed
qed

lemma tokenizeDishKey_normalized:
  assumes "normalizeDishKey s \<noteq> []"
  shows "tokenizeDishKey (normalizeDishKey s) \<noteq> []"
proof -
  obtain c where c: "c \<in> set (normalizeDishKey s)" "isAlnumLower c"
    using normalizeDishKey_has_alnum [OF assms] by blast
  have k: "c \<in> set (normalizeDishKey (normalizeDishKey s))"
    using c by (rule normalizeDishKey_keeps_alnum)
  have "c \<noteq> CHR '' ''" using isAlnumLower_not_space [OF c(2)] by (auto simp: isSpace_def)
  then have "splitWords (\<lambda>c. c = CHR '' '') (normalizeDishKey (normalizeDishKey s)) \<noteq> []"
    using k splitWords_nonempty [of c _ "\<lambda>c. c = CHR '' ''"] by simp
  then show ?thesis using k by (auto simp: tokenizeDishKey_def Let_def splitWords_def)
qed

lemma tokenizeDishKey_tokens_nonempty: "t \<in> set (tokenizeDishKey k) \<Longrightarrow> t \<noteq> []"
  by (auto simp: tokenizeDishKey_def Let_def filterBoolean_def split: if_splits)


lemma shared_pos_if_first_equal:
  assumes "qs \<noteq> []" "cs \<noteq> []" "hd cs = hd qs"
  shows "filter (\<lambda>token. token \<in> set cs) qs \<noteq> []"
proof -
  have "hd qs \<in> set qs" "hd qs \<in> set cs" using assms by (metis hd_in_set)+
  then show ?thesis by (auto simp: filter_empty_conv)
qed

lemma prefixBonus_eq:
  assumes "qs \<noteq> []" "cs \<noteq> []" "\<forall>t\<in>set qs. t \<noteq> []" "\<forall>t\<in>set cs. t \<noteq> []"
  shows "prefixBonus cs qs = (if hd cs = hd qs then 0.08 else 0)"
  using assms by (cases qs; cases cs) (auto simp: prefixBonus_def)

lemma scoreDishMatch_formula:
  assumes "queryKey \<noteq> candidateKey"
    and "\<not> includesStr candidateKey queryKey" "\<not> includesStr queryKey candidateKey"
    and "tokenizeDishKey queryKey \<noteq> []" "tokenizeDishKey candidateKey \<noteq> []"
  shows "scoreDishMatch queryKey candidateKey =
     (let queryTokens = tokenizeDishKey queryKey;
          candidateTokens = tokenizeDishKey candidateKey;
          shared = length (filter (\<lambda>token. token \<in> set candidateTokens) queryTokens);
          overlap = real shared / real (min (length queryTokens) (length candidateTokens));
          coverage = real shared / real (length queryTokens);
          bonus = (if hd candidateTokens = hd queryTokens then 0.08 else 0)
      in min 1 (max overlap (0.9 * coverage) + bonus))"
proof -
  let ?qs = "tokenizeDishKey queryKey"
  let ?cs = "tokenizeDishKey candidateKey"
  have ne: "queryKey \<noteq> []" "candidateKey \<noteq> []"
    using assms(2,3) by (cases queryKey; cases candidateKey; auto)+
  have pb: "prefixBonus ?cs ?qs = (if hd ?cs = hd ?qs then 0.08 else 0)"
    using assms(4,5) tokenizeDishKey_tokens_nonempty by (intro prefixBonus_eq) blast+
  show ?thesis
  proof (cases "filter (\<lambda>token. token \<in> set ?cs) ?qs = []")
    case True
    then have "hd ?cs \<noteq> hd ?qs"
      using shared_pos_if_first_equal [OF assms(4,5)] by blast
    then show ?thesis
      using True assms ne by (simp add: scoreDishMatch_def Let_def)
  next
    case False
    then show ?thesis
      using assms ne pb by (simp add: scoreDishMatch_def Let_def mult.commute)
  qed
qed

lemma scoreDishMatch_nonneg: "0 \<le> scoreDishMatch q c"
  by (auto simp: scoreDishMatch_def Let_def prefixBonus_def min_def max_def
           split: list.splits)

lemma bestLoop_spec:
  "bestLoop q rs b0 r0 = (bs, br) \<Longrightarrow>
     b0 \<le> bs \<and> (\<forall>r\<in>set rs. scoreDishMatch q (dishKey r) \<le> bs) \<and>
     ((bs = b0 \<and> br = r0) \<or> (\<exists>r\<in>set rs. br = Some r \<and> scoreDishMatch q (dishKey r) = bs \<and> b0 < bs))"
proof (induction rs arbitrary: b0 r0)
  case Nil
  then show ?case by simp
next
  case (Cons x xs)
  show ?case
  proof (cases "scoreDishMatch q (dishKey x) > b0")
    case True
    then have "bestLoop q xs (scoreDishMatch q (dishKey x)) (Some x) = (bs, br)"
      using Cons.prems by (simp add: Let_def)
    from Cons.IH [OF this] show ?thesis using True by auto
  next
    case False
    then have "bestLoop q xs b0 r0 = (bs, br)"
      using Cons.prems by (simp add: Let_def)
    from Cons.IH [OF this] show ?thesis using False by auto
  qed
qed

lemma findBestFuzzyDishMatch_Some:
  "findBestFuzzyDishMatch q rs = Some f \<longleftrightarrow>
     (\<exists>bs. bestLoop q rs 0 None = (bs, Some f) \<and> 0.62 \<le> bs)"
  by (auto simp: findBestFuzzyDishMatch_def split: prod.splits)

lemma findBestFuzzyDishMatch_best:
  assumes "findBestFuzzyDishMatch q rs = Some f"
  shows "f \<in> set rs \<and> 0.62 \<le> scoreDishMatch q (dishKey f) \<and>
         (\<forall>r\<in>set rs. scoreDishMatch q (dishKey r) \<le> scoreDishMatch q (dishKey f))"
proof -
  obtain bs where b: "bestLoop q rs 0 None = (bs, Some f)" "0.62 \<le> bs"
    using assms findBestFuzzyDishMatch_Some by blast
  from bestLoop_spec [OF b(1)] b(2) show ?thesis by auto
qed

lemma findBestFuzzyDishMatch_None:
  "findBestFuzzyDishMatch q rs = None \<longleftrightarrow> (\<forall>r\<in>set rs. scoreDishMatch q (dishKey r) < 0.62)"
proof -
  obtain bs br where b: "bestLoop q rs 0 None = (bs, br)" by (cases "bestLoop q rs 0 None")
  note sp = bestLoop_spec [OF b]
  show ?thesis
  proof
    assume "findBestFuzzyDishMatch q rs = None"
    then have "bs < 0.62 \<or> br = None" using b by (auto simp: findBestFuzzyDishMatch_def split: if_splits)
    then have "bs < 0.62" using sp by auto
    then show "\<forall>r\<in>set rs. scoreDishMatch q (dishKey r) < 0.62" using sp by fastforce
  next
    assume a: "\<forall>r\<in>set rs. scoreDishMatch q (dishKey r) < 0.62"
    have "bs < 0.62" using sp a by auto
    then show "findBestFuzzyDishMatch q rs = None" using b by (simp add: findBestFuzzyDishMatch_def)
  qed
qed

lemma lookupByDish_fuzzy_iff:
  "matchType (lookupByDish recipes dishQuery) = fuzzy \<longleftrightarrow>
     normalizeDishKey (trim dishQuery) \<noteq> [] \<and>
     (\<forall>e\<in>set recipes. dishKey e \<noteq> normalizeDishKey (trim dishQuery)) \<and>
     (\<exists>r\<in>set recipes. 0.62 \<le> scoreDishMatch (normalizeDishKey (trim dishQuery)) (dishKey r))"
proof -
  let ?k = "normalizeDishKey (trim dishQuery)"
  let ?ex = "\<exists>r\<in>set recipes. 0.62 \<le> scoreDishMatch ?k (dishKey r)"
  have n: "findBestFuzzyDishMatch ?k recipes = None \<longleftrightarrow> \<not> ?ex"
    by (auto simp: findBestFuzzyDishMatch_None not_le)
  show ?thesis
  proof (cases "find (\<lambda>entry. dishKey entry = ?k) recipes")
    case None
    then have a: "\<forall>e\<in>set recipes. dishKey e \<noteq> ?k"
      by (auto simp: find_None_iff)
    show ?thesis
    proof (cases "findBestFuzzyDishMatch ?k recipes")
      case None
      then have "\<not> ?ex" using n by blast
      moreover have "matchType (lookupByDish recipes dishQuery) = none"
        using None \<open>find (\<lambda>entry. dishKey entry = ?k) recipes = None\<close>
        by (simp add: lookupByDish_def Let_def)
      ultimately show ?thesis by simp
    next
      case (Some f)
      then have e: "?ex" using n by auto
      have "matchType (lookupByDish recipes dishQuery) = (if ?k = [] then none else fuzzy)"
        using Some \<open>find (\<lambda>entry. dishKey entry = ?k) recipes = None\<close>
        by (simp add: lookupByDish_def Let_def)
      then show ?thesis using a e by auto
    qed
  next
    case (Some e)
    then have "e \<in> set recipes \<and> dishKey e = ?k"
      by (auto simp: find_Some_iff)
    moreover have "matchType (lookupByDish recipes dishQuery) = (if ?k = [] then none else exact)"
      using Some by (simp add: lookupByDish_def Let_def)
    ultimately show ?thesis by auto
  qed
qed

lemma lookupByDish_fuzzy_best:
  assumes "matchType (lookupByDish recipes dishQuery) = fuzzy"
  shows "\<exists>f. lookupRecipe (lookupByDish recipes dishQuery) = Some f \<and> f \<in> set recipes \<and>
             0.62 \<le> scoreDishMatch (normalizeDishKey (trim dishQuery)) (dishKey f) \<and>
             (\<forall>r\<in>set recipes. scoreDishMatch (normalizeDishKey (trim dishQuery)) (dishKey r)
                                  \<le> scoreDishMatch (normalizeDishKey (trim dishQuery)) (dishKey f))"
proof -
  let ?k = "normalizeDishKey (trim dishQuery)"
  obtain f where f: "findBestFuzzyDishMatch ?k recipes = Some f"
      "lookupRecipe (lookupByDish recipes dishQuery) = Some f"
    using assms
    by (cases "find (\<lambda>entry. dishKey entry = ?k) recipes"; cases "findBestFuzzyDishMatch ?k recipes")
       (auto simp: lookupByDish_def Let_def split: if_splits)
  show ?thesis using findBestFuzzyDishMatch_best [OF f(1)] f(2) by blast
qed

lemma spaghetti_tokens:
  "normalizeDishKey (trim ''spaghetti'') = ''spaghetti''"
  "tokenizeDishKey ''spaghetti'' = [''spaghetti'']"
  "tokenizeDishKey ''pasta bolognese'' = [''pasta'', ''bolognese'']"
  "\<not> includesStr ''pasta bolognese'' ''spaghetti''"
  "\<not> includesStr ''spaghetti'' ''pasta bolognese''"
  "trim ''spaghetti'' = ''spaghetti''"
  "normalizeDishKey ''spaghetti'' = ''spaghetti''"
  by code_simp+

lemma spaghetti_score: "scoreDishMatch ''spaghetti'' ''pasta bolognese'' = 0"
  by (simp add: scoreDishMatch_def Let_def spaghetti_tokens)

lemma spaghetti_lookup:
  "lookupByDish [pastaEntry] ''spaghetti'' =
     \<lparr>found = False, query = ''spaghetti'', matchType = none, lookupRecipe = None\<rparr>"
  by (simp add: lookupByDish_def Let_def spaghetti_tokens pastaEntry_def findBestFuzzyDishMatch_def
                spaghetti_score)

lemma startsWith_refl: "startsWith s s"
  by (induction s) simp_all

lemma includesStr_refl: "includesStr s s"
  by (cases s) (simp_all add: startsWith_refl)

lemma scoreDishMatch_no_shared_token:
  assumes "\<not> includesStr c q" and "\<not> includesStr q c"
    and "\<forall>token\<in>set (tokenizeDishKey q). token \<notin> set (tokenizeDishKey c)"
  shows "scoreDishMatch q c = 0"
proof -
  have ne: "q \<noteq> c" using assms(1) includesStr_refl [of q] by auto
  have f: "filter (\<lambda>token. token \<in> set (tokenizeDishKey c)) (tokenizeDishKey q) = []"
    using assms(3) by (simp add: filter_empty_conv)
  show ?thesis
    using assms(1,2) ne by (simp add: scoreDishMatch_def Let_def f)
qed

lemma lookupByDish_no_shared_token:
  assumes "\<forall>r\<in>set recipes.
             \<not> includesStr (dishKey r) (normalizeDishKey (trim dishQuery)) \<and>
             \<not> includesStr (normalizeDishKey (trim dishQuery)) (dishKey r) \<and>
             (\<forall>token\<in>set (tokenizeDishKey (normalizeDishKey (trim dishQuery))).
                token \<notin> set (tokenizeDishKey (dishKey r)))"
  shows "(\<forall>r\<in>set recipes. scoreDishMatch (normalizeDishKey (trim dishQuery)) (dishKey r) = 0) \<and>
         lookupByDish recipes dishQuery =
           \<lparr>found = False, query = trim dishQuery, matchType = none, lookupRecipe = None\<rparr>"
proof -
  let ?k = "normalizeDishKey (trim dishQuery)"
  have z: "\<forall>r\<in>set recipes. scoreDishMatch ?k (dishKey r) = 0"
    using assms scoreDishMatch_no_shared_token by blast
  have "\<forall>r\<in>set recipes. dishKey r \<noteq> ?k"
    using assms includesStr_refl [of ?k] by auto
  then have e: "find (\<lambda>entry. dishKey entry = ?k) recipes = None"
    by (simp add: find_None_iff)
  have "\<forall>r\<in>set recipes. scoreDishMatch ?k (dishKey r) < 0.62"
    using z by simp
  then have n: "findBestFuzzyDishMatch ?k recipes = None"
    by (simp add: findBestFuzzyDishMatch_None)
  have "lookupByDish recipes dishQuery =
           \<lparr>found = False, query = trim dishQuery, matchType = none, lookupRecipe = None\<rparr>"
    by (simp add: lookupByDish_def Let_def e n)
  then show ?thesis using z by blast
qed

lemma egg_facts:
  "trim ''egg'' = ''egg''"
  "normalizeDishKey ''egg'' = ''egg''"
  "tokenizeDishKey ''egg'' = [''egg'']"
  "tokenizeDishKey ''eggplant parmesan'' = [''eggplant'', ''parmesan'']"
  "includesStr ''eggplant parmesan'' ''egg''"
  by code_simp+

text \<open>
  C8 as stated fails: a key that contains the other one scores 0.95 before any token is
  compared.  The query \<open>egg\<close> shares no token with the only entry, \<open>eggplant parmesan\<close>,
  and the lookup answers \<open>fuzzy\<close> with that entry.
\<close>

theorem substring_without_shared_token_counterexample:
  "tokenizeDishKey (normalizeDishKey (trim ''egg'')) = [''egg''] \<and>
   tokenizeDishKey (dishKey eggplantEntry) = [''eggplant'', ''parmesan''] \<and>
   filter (\<lambda>token. token \<in> set (tokenizeDishKey (dishKey eggplantEntry)))
     (tokenizeDishKey (normalizeDishKey (trim ''egg''))) = [] \<and>
   scoreDishMatch (normalizeDishKey (trim ''egg'')) (dishKey eggplantEntry) = 0.95 \<and>
   lookupByDish [eggplantEntry] ''egg'' =
     \<lparr>found = True, query = ''egg'', matchType = fuzzy, lookupRecipe = Some eggplantEntry\<rparr>"
proof -
  have k: "dishKey eggplantEntry = ''eggplant parmesan''"
    by (simp add: eggplantEntry_def)
  have s: "scoreDishMatch ''egg'' ''eggplant parmesan'' = 0.95"
    by (simp add: scoreDishMatch_def egg_facts)
  have l: "lookupByDish [eggplantEntry] ''egg'' =
     \<lparr>found = True, query = ''egg'', matchType = fuzzy, lookupRecipe = Some eggplantEntry\<rparr>"
    by (simp add: lookupByDish_def Let_def egg_facts k findBestFuzzyDishMatch_def s)
  show ?thesis
    using s l by (simp add: egg_facts k)
qed

text \<open>
  C8, amended.  For two non-empty normalized keys that differ and of which neither contains the
  other, both token lists are non-empty and the score is
  \<open>min(1, max(overlap, 0.9 * coverage) + prefixBonus)\<close> with \<open>shared\<close> the number of query
  tokens that occur among the candidate's tokens, \<open>overlap = shared / min(|queryTokens|,
  |candidateTokens|)\<close>, \<open>coverage = shared / |queryTokens|\<close> and the bonus 0.08 exactly
  when the two first tokens are equal.  A lookup answers \<open>fuzzy\<close> exactly when the query
  has a non-empty key, no entry has that key and some entry scores at least 0.62; the
  entry it returns then is one with the highest score of all.  When no token of the
  query occurs among the tokens of any entry and, for every entry, neither key contains
  the other, every entry scores 0 and the lookup answers \<open>none\<close>; the query \<open>spaghetti\<close>
  against the single entry \<open>pasta bolognese\<close> is such a lookup.
\<close>

theorem catalog_fuzzy_match:
  "(queryKey = normalizeDishKey x \<and> candidateKey = normalizeDishKey y \<and>
    queryKey \<noteq> [] \<and> candidateKey \<noteq> [] \<and> queryKey \<noteq> candidateKey \<and>
    \<not> includesStr candidateKey queryKey \<and> \<not> includesStr queryKey candidateKey \<longrightarrow>
      tokenizeDishKey queryKey \<noteq> [] \<and> tokenizeDishKey candidateKey \<noteq> [] \<and>
      scoreDishMatch queryKey candidateKey =
        (let queryTokens = tokenizeDishKey queryKey;
             candidateTokens = tokenizeDishKey candidateKey;
             shared = length (filter (\<lambda>token. token \<in> set candidateTokens) queryTokens);
             overlap = real shared / real (min (length queryTokens) (length candidateTokens));
             coverage = real shared / real (length queryTokens);
             bonus = (if hd candidateTokens = hd queryTokens then 0.08 else 0)
         in min 1 (max overlap (0.9 * coverage) + bonus))) \<and>
   (matchType (lookupByDish recipes dishQuery) = fuzzy \<longleftrightarrow>
      normalizeDishKey (trim dishQuery) \<noteq> [] \<and>
      (\<forall>e\<in>set recipes. dishKey e \<noteq> normalizeDishKey (trim dishQuery)) \<and>
      (\<exists>r\<in>set recipes. 0.62 \<le> scoreDishMatch (normalizeDishKey (trim dishQuery)) (dishKey r))) \<and>
   (matchType (lookupByDish recipes dishQuery) = fuzzy \<longrightarrow>
      (\<exists>f. lookupRecipe (lookupByDish recipes dishQuery) = Some f \<and> f \<in> set recipes \<and>
           0.62 \<le> scoreDishMatch (normalizeDishKey (trim dishQuery)) (dishKey f) \<and>
           (\<forall>r\<in>set recipes. scoreDishMatch (normalizeDishKey (trim dishQuery)) (dishKey r)
                                \<le> scoreDishMatch (normalizeDishKey (trim dishQuery)) (dishKey f)))) \<and>
   ((\<forall>r\<in>set recipes.
        \<not> includesStr (dishKey r) (normalizeDishKey (trim dishQuery)) \<and>
        \<not> includesStr (normalizeDishKey (trim dishQuery)) (dishKey r) \<and>
        (\<forall>token\<in>set (tokenizeDishKey (normalizeDishKey (trim dishQuery))).
           token \<notin> set (tokenizeDishKey (dishKey r)))) \<longrightarrow>
      (\<forall>r\<in>set recipes. scoreDishMatch (normalizeDishKey (trim dishQuery)) (dishKey r) = 0) \<and>
      lookupByDish recipes dishQuery =
        \<lparr>found = False, query = trim dishQuery, matchType = none, lookupRecipe = None\<rparr>) \<and>
   lookupByDish [pastaEntry] ''spaghetti'' =
     \<lparr>found = False, query = ''spaghetti'', matchType = none, lookupRecipe = None\<rparr>"
proof (intro conjI impI)
  assume h: "queryKey = normalizeDishKey x \<and> candidateKey = normalizeDishKey y \<and>
    queryKey \<noteq> [] \<and> candidateKey \<noteq> [] \<and> queryKey \<noteq> candidateKey \<and>
    \<not> includesStr candidateKey queryKey \<and> \<not> includesStr queryKey candidateKey"
  show q: "tokenizeDishKey queryKey \<noteq> []"
    using h tokenizeDishKey_normalized [of x] by blast
  show c: "tokenizeDishKey candidateKey \<noteq> []"
    using h tokenizeDishKey_normalized [of y] by blast
  show "scoreDishMatch queryKey candidateKey =
        (let queryTokens = tokenizeDishKey queryKey;
             candidateTokens = tokenizeDishKey candidateKey;
             shared = length (filter (\<lambda>token. token \<in> set candidateTokens) queryTokens);
             overlap = real shared / real (min (length queryTokens) (length candidateTokens));
             coverage = real shared / real (length queryTokens);
             bonus = (if hd candidateTokens = hd queryTokens then 0.08 else 0)
         in min 1 (max overlap (0.9 * coverage) + bonus))"
    using h q c by (intro scoreDishMatch_formula) blast+
next
  show "matchType (lookupByDish recipes dishQuery) = fuzzy \<longleftrightarrow>
      normalizeDishKey (trim dishQuery) \<noteq> [] \<and>
      (\<forall>e\<in>set recipes. dishKey e \<noteq> normalizeDishKey (trim dishQuery)) \<and>
      (\<exists>r\<in>set recipes. 0.62 \<le> scoreDishMatch (normalizeDishKey (trim dishQuery)) (dishKey r))"
    by (rule lookupByDish_fuzzy_iff)
next
  assume "matchType (lookupByDish recipes dishQuery) = fuzzy"
  then show "\<exists>f. lookupRecipe (lookupByDish recipes dishQuery) = Some f \<and> f \<in> set recipes \<and>
           0.62 \<le> scoreDishMatch (normalizeDishKey (trim dishQuery)) (dishKey f) \<and>
           (\<forall>r\<in>set recipes. scoreDishMatch (normalizeDishKey (trim dishQuery)) (dishKey r)
                                \<le> scoreDishMatch (normalizeDishKey (trim dishQuery)) (dishKey f))"
    by (rule lookupByDish_fuzzy_best)
next
  assume h: "\<forall>r\<in>set recipes.
        \<not> includesStr (dishKey r) (normalizeDishKey (trim dishQuery)) \<and>
        \<not> includesStr (normalizeDishKey (trim dishQuery)) (dishKey r) \<and>
        (\<forall>token\<in>set (tokenizeDishKey (normalizeDishKey (trim dishQuery))).
           token \<notin> set (tokenizeDishKey (dishKey r)))"
  show "\<forall>r\<in>set recipes. scoreDishMatch (normalizeDishKey (trim dishQuery)) (dishKey r) = 0"
    using lookupByDish_no_shared_token [OF h] by blast
  show "lookupByDish recipes dishQuery =
        \<lparr>found = False, query = trim dishQuery, matchType = none, lookupRecipe = None\<rparr>"
    using lookupByDish_no_shared_token [OF h] by blast
next
  show "lookupByDish [pastaEntry] ''spaghetti'' =
     \<lparr>found = False, query = ''spaghetti'', matchType = none, lookupRecipe = None\<rparr>"
    by (rule spaghetti_lookup)
qed

theorem catalog_fuzzy_match_witness:
  "normalizeDishKey ''Chicken Tikka Masala'' = ''chicken tikka masala'' \<and>
   normalizeDishKey ''Chicken Masala Curry'' = ''chicken masala curry'' \<and>
   \<not> includesStr ''chicken masala curry'' ''chicken tikka masala'' \<and>
   \<not> includesStr ''chicken tikka masala'' ''chicken masala curry'' \<and>
   scoreDishMatch ''chicken tikka masala'' ''chicken masala curry'' = 56 / 75 \<and>
   matchType (lookupByDish [pastaEntry, curryEntry] ''Chicken Tikka Masala'') = fuzzy \<and>
   lookupRecipe (lookupByDish [pastaEntry, curryEntry] ''Chicken Tikka Masala'') = Some curryEntry \<and>
   matchType (lookupByDish [pastaEntry] ''spaghetti'') = none \<and>
   tokenizeDishKey (normalizeDishKey (trim ''spaghetti'')) = [''spaghetti''] \<and>
   \<not> includesStr ''pasta bolognese'' ''spaghetti'' \<and> \<not> includesStr ''spaghetti'' ''pasta bolognese'' \<and>
   \<not> includesStr ''chicken masala curry'' ''spaghetti'' \<and>
   \<not> includesStr ''spaghetti'' ''chicken masala curry'' \<and>
   scoreDishMatch ''spaghetti'' ''pasta bolognese'' = 0 \<and>
   scoreDishMatch ''spaghetti'' ''chicken masala curry'' = 0 \<and>
   lookupByDish [pastaEntry, curryEntry] ''spaghetti'' =
     \<lparr>found = False, query = ''spaghetti'', matchType = none, lookupRecipe = None\<rparr>"
proof -
  have k: "normalizeDishKey ''Chicken Tikka Masala'' = ''chicken tikka masala''"
    "normalizeDishKey ''Chicken Masala Curry'' = ''chicken masala curry''"
    "normalizeDishKey (trim ''Chicken Tikka Masala'') = ''chicken tikka masala''"
    by code_simp+
  have i: "\<not> includesStr ''chicken masala curry'' ''chicken tikka masala''"
    "\<not> includesStr ''chicken tikka masala'' ''chicken masala curry''"
    "\<not> includesStr ''pasta bolognese'' ''chicken tikka masala''"
    "\<not> includesStr ''chicken tikka masala'' ''pasta bolognese''"
    by code_simp+
  have t: "tokenizeDishKey ''chicken tikka masala'' = [''chicken'', ''tikka'', ''masala'']"
    "tokenizeDishKey ''chicken masala curry'' = [''chicken'', ''masala'', ''curry'']"
    "tokenizeDishKey ''pasta bolognese'' = [''pasta'', ''bolognese'']"
    by code_simp+
  note inst = catalog_fuzzy_match
      [where queryKey = "''chicken tikka masala''" and candidateKey = "''chicken masala curry''"
         and x = "''Chicken Tikka Masala''" and y = "''Chicken Masala Curry''"
         and recipes = "[pastaEntry, curryEntry]" and dishQuery = "''Chicken Tikka Masala''"]
  note formula = inst [THEN conjunct1]
  note accept = inst [THEN conjunct2, THEN conjunct1]
  note best = inst [THEN conjunct2, THEN conjunct2, THEN conjunct1]
  note example = inst [THEN conjunct2, THEN conjunct2, THEN conjunct2, THEN conjunct2]
  note unrelated = catalog_fuzzy_match
      [where recipes = "[pastaEntry, curryEntry]" and dishQuery = "''spaghetti''",
       THEN conjunct2, THEN conjunct2, THEN conjunct2, THEN conjunct1]
  have "scoreDishMatch ''chicken tikka masala'' ''chicken masala curry'' =
          min 1 (max (real 2 / real (min 3 3)) (0.9 * (real 2 / real 3)) + 0.08)"
    using formula k i by (simp add: t Let_def)
  then have s: "scoreDishMatch ''chicken tikka masala'' ''chicken masala curry'' = 56 / 75"
    by simp
  have p: "scoreDishMatch ''chicken tikka masala'' ''pasta bolognese'' = 0"
    by (simp add: scoreDishMatch_def Let_def t i)
  have e: "dishKey pastaEntry = ''pasta bolognese''" "dishKey curryEntry = ''chicken masala curry''"
    by (simp_all add: pastaEntry_def curryEntry_def)
  have m: "matchType (lookupByDish [pastaEntry, curryEntry] ''Chicken Tikka Masala'') = fuzzy"
    using accept by (simp add: k e s)
  obtain f where f: "lookupRecipe (lookupByDish [pastaEntry, curryEntry] ''Chicken Tikka Masala'') = Some f"
      "f \<in> set [pastaEntry, curryEntry]"
      "0.62 \<le> scoreDishMatch (normalizeDishKey (trim ''Chicken Tikka Masala'')) (dishKey f)"
    using best m by blast
  have "f \<noteq> pastaEntry" using f(3) by (auto simp: k e p)
  then have r: "lookupRecipe (lookupByDish [pastaEntry, curryEntry] ''Chicken Tikka Masala'') = Some curryEntry"
    using f(1,2) by simp
  have n: "matchType (lookupByDish [pastaEntry] ''spaghetti'') = none"
    using example by simp
  have j: "\<not> includesStr ''pasta bolognese'' ''spaghetti''"
    "\<not> includesStr ''spaghetti'' ''pasta bolognese''"
    "\<not> includesStr ''chicken masala curry'' ''spaghetti''"
    "\<not> includesStr ''spaghetti'' ''chicken masala curry''"
    by code_simp+
  have q: "tokenizeDishKey (normalizeDishKey (trim ''spaghetti'')) = [''spaghetti'']"
    "normalizeDishKey (trim ''spaghetti'') = ''spaghetti''" "trim ''spaghetti'' = ''spaghetti''"
    by code_simp+
  have u: "scoreDishMatch ''spaghetti'' ''pasta bolognese'' = 0 \<and>
           scoreDishMatch ''spaghetti'' ''chicken masala curry'' = 0 \<and>
           lookupByDish [pastaEntry, curryEntry] ''spaghetti'' =
             \<lparr>found = False, query = ''spaghetti'', matchType = none, lookupRecipe = None\<rparr>"
    using unrelated by (simp add: spaghetti_tokens e j t)
  show ?thesis using k(1,2) i(1,2) s m r n q(1) j u by blast
qed

subsection \<open>The tool-call loop\<close>











end
